theory Spec2Isabelle
  imports Complex_Main
begin

section \<open>Errors and numpy arrays\<close>

text \<open>
  Every failure of the Python source is a \<^verbatim>\<open>ValueError\<close> with its own message, or an
  exception that numpy raises itself. The constructors name the failure after the spec's
  taxonomy where it has a name for it:
  \<^item> \<open>InvalidBandlimit\<close>: "Wigner-d bandlimit el cannot be equal to or greater than L";
  \<^item> \<open>SpinExceedsDegree\<close>: "Wigner-D not valid for l < spin";
  \<^item> \<open>UnsupportedSampling\<close>: "Reflection acceleration scheme not yet stable" and
    "Sampling scheme ... not implement (only DH supported at present)";
  \<^item> \<open>NegativeDimensions\<close>: numpy's "negative dimensions are not allowed";
  \<^item> \<open>IndexError\<close>: numpy's out-of-bounds index;
  \<^item> \<open>ShapeMismatch\<close>: numpy's "could not broadcast input array";
  \<^item> \<open>AlreadyIndexed\<close>, \<open>BadDimension\<close>: the two failures of the layout conversions.

  \<^verbatim>\<open>np.float64\<close> is modelled by \<open>real\<close> and \<^verbatim>\<open>np.complex128\<close> by \<open>complex\<close>: rounding
  is not modelled. Python integers are \<open>int\<close>; array positions that the source keeps in
  range are \<open>nat\<close>.
\<close>

datatype error =
    InvalidBandlimit
  | SpinExceedsDegree
  | UnsupportedSampling
  | NegativeDimensions
  | IndexError
  | ShapeMismatch
  | AlreadyIndexed
  | BadDimension

type_synonym vec = "real list"
type_synonym mat = "real list list"

abbreviation (input) lp1 :: nat where "lp1 \<equiv> 1"

definition bind :: "error + 'a \<Rightarrow> ('a \<Rightarrow> error + 'b) \<Rightarrow> error + 'b" where
  "bind r f = (case r of Inl e \<Rightarrow> Inl e | Inr x \<Rightarrow> f x)"

text \<open>A \<^verbatim>\<open>for\<close> loop whose body can raise: the first error ends the loop.\<close>

fun foldM :: "('x \<Rightarrow> 's \<Rightarrow> error + 's) \<Rightarrow> 'x list \<Rightarrow> 's \<Rightarrow> error + 's" where
  "foldM f [] s = Inr s"
| "foldM f (x # xs) s = (case f x s of Inl e \<Rightarrow> Inl e | Inr s' \<Rightarrow> foldM f xs s')"

text \<open>numpy's index rule on an axis of length \<open>n\<close>: a negative index counts from the end.\<close>

definition py_index :: "nat \<Rightarrow> int \<Rightarrow> error + nat" where
  "py_index n i =
     (if 0 \<le> i \<and> i < int n then Inr (nat i)
      else if - int n \<le> i \<and> i < 0 then Inr (nat (int n + i))
      else Inl IndexError)"

text \<open>\<^verbatim>\<open>(-1) ** k\<close> for a Python integer \<open>k\<close> of either sign (a float when \<open>k < 0\<close>).\<close>

definition minus_one_pow :: "int \<Rightarrow> real" where
  "minus_one_pow k = (if even k then 1 else - 1)"

definition zeros :: "nat \<Rightarrow> 'a::zero list" where
  "zeros n = replicate n 0"

definition zeros2 :: "nat \<Rightarrow> nat \<Rightarrow> 'a::zero list list" where
  "zeros2 r c = replicate r (replicate c 0)"

definition identity :: "nat \<Rightarrow> mat" where
  "identity n = map (\<lambda>i. map (\<lambda>j. if i = j then 1 else 0) [0..<n]) [0..<n]"

definition mget :: "'a list list \<Rightarrow> nat \<Rightarrow> nat \<Rightarrow> 'a" where
  "mget dl i j = dl ! i ! j"

definition mset :: "'a list list \<Rightarrow> nat \<Rightarrow> nat \<Rightarrow> 'a \<Rightarrow> 'a list list" where
  "mset dl i j v = dl[i := (dl ! i)[j := v]]"

text \<open>\<^verbatim>\<open>dl[a : a + len(v)] = v\<close> on a vector.\<close>

definition set_slice :: "'a list \<Rightarrow> nat \<Rightarrow> 'a list \<Rightarrow> 'a list" where
  "set_slice dl a v = take a dl @ v @ drop (a + length v) dl"

text \<open>\<^verbatim>\<open>dl[a : a + n, a : a + n] = blk\<close> on a matrix, \<open>blk\<close> of \<open>n\<close> rows.\<close>

definition set_block :: "'a list list \<Rightarrow> nat \<Rightarrow> 'a list list \<Rightarrow> 'a list list" where
  "set_block dl a blk =
     take a dl @ map (\<lambda>(row, brow). set_slice row a brow) (zip (take (length blk) (drop a dl)) blk)
       @ drop (a + length blk) dl"

section \<open>Wigner-d recursion engine (wigner/turok.py)\<close>

subsection \<open>turok\_fill\<close>

text \<open>
  The four loop nests of \<^verbatim>\<open>turok_fill\<close>, in the source's order and with the source's
  one-based loop variables; every position is \<^verbatim>\<open>variable - lp1\<close>. For \<open>l \<ge> 0\<close> every
  position lies in \<open>0..2l\<close>.
\<close>

definition reflect_antidiagonal :: "nat \<Rightarrow> mat \<Rightarrow> mat" where
  "reflect_antidiagonal l dl =
     fold (\<lambda>i. fold (\<lambda>j dl. mset dl (2 * l + 2 - i - lp1) (2 * l + 2 - j - lp1)
                               (mget dl (j - lp1) (i - lp1)))
                 [l + 1 ..< 2 * l + 1 - i + 1])
          [1 ..< l + 1] dl"

definition reflect_diagonal_row :: "nat \<Rightarrow> nat \<Rightarrow> mat \<Rightarrow> mat" where
  "reflect_diagonal_row l i dl =
     fst (fold (\<lambda>j (dl, sgn). (mset dl (i - lp1) (j - lp1) (mget dl (j - lp1) (i - lp1) * sgn),
                               sgn * (- 1)))
               [i + 1 ..< l + 2] (dl, - 1 :: real))"

definition reflect_diagonal :: "nat \<Rightarrow> mat \<Rightarrow> mat" where
  "reflect_diagonal l dl = fold (reflect_diagonal_row l) [1 ..< l + 2] dl"

definition fill_right_column :: "nat \<Rightarrow> nat \<Rightarrow> mat \<Rightarrow> mat" where
  "fill_right_column l i dl =
     (let dl = fst (fold (\<lambda>j (dl, sgn). (mset dl (j - lp1) (i - lp1)
                                            (mget dl (i - lp1) (j - lp1) * sgn),
                                         sgn * (- 1)))
                         [1 ..< 2 * l + 2 - i + 1] (dl, (- 1 :: real) ^ (i + 1)))
      in fold (\<lambda>j dl. mset dl (j - lp1) (i - lp1)
                         (mget dl (2 * l + 2 - i - lp1) (2 * l + 2 - j - lp1)))
              [i ..< 2 * l + 2] dl)"

definition fill_right :: "nat \<Rightarrow> mat \<Rightarrow> mat" where
  "fill_right l dl = fold (fill_right_column l) [l + 2 ..< 2 * l + 2] dl"

definition fill_rest :: "nat \<Rightarrow> mat \<Rightarrow> mat" where
  "fill_rest l dl =
     fold (\<lambda>i. fold (\<lambda>j dl. mset dl (j - lp1) (i - lp1)
                               (mget dl (2 * l + 2 - i - lp1) (2 * l + 2 - j - lp1)))
                 [2 * l + 3 - i ..< i - 1 + 1])
          [l + 2 ..< 2 * l + 2] dl"

definition turok_fill :: "mat \<Rightarrow> nat \<Rightarrow> mat" where
  "turok_fill dl l = fill_rest l (fill_right l (reflect_diagonal l (reflect_antidiagonal l dl)))"

subsection \<open>The recursion shared by turok\_quarter and turok\_quarter\_spin\<close>

definition big_const :: real where
  "big_const = 10000000000"

definition bigi :: real where
  "bigi = 1 / big_const"

definition lbig :: real where
  "lbig = ln big_const"

text \<open>The loop that fills \<^verbatim>\<open>log_first_row\<close> and \<^verbatim>\<open>sign\<close> (the same text in both functions).\<close>

definition first_row_vectors :: "real \<Rightarrow> nat \<Rightarrow> vec \<times> vec" where
  "first_row_vectors beta l =
     (let t = tan (- beta / 2);
          c2 = cos (beta / 2);
          log_first_row = (zeros (2 * l + 1))[0 := 2 * real l * ln \<bar>c2\<bar>];
          sign = (zeros (2 * l + 1))[0 := 1]
      in fold (\<lambda>i (log_first_row, sign).
                 let m = int l + 1 - int i;
                     ratio = sqrt (real_of_int (m + int l + 1) / real_of_int (int l - m))
                 in (log_first_row[i - 1 := log_first_row ! (i - 2) + ln ratio + ln \<bar>t\<bar>],
                     sign[i - 1 := sign ! (i - 2) * t / \<bar>t\<bar>]))
              [2 ..< 2 * l + 2] (log_first_row, sign))"

text \<open>
  One pass of the inner recursion loop over \<open>m\<close>, for the row of one-based index \<open>i\<close>: the
  three-term recurrence, then the renormalisation of the row when the new entry exceeds
  \<^verbatim>\<open>big_const\<close>. The source has this text four times (twice in each function).
\<close>

definition recursion_m :: "real \<Rightarrow> nat \<Rightarrow> vec \<Rightarrow> vec \<Rightarrow> nat \<Rightarrow> nat \<Rightarrow> mat \<times> vec \<Rightarrow> mat \<times> vec" where
  "recursion_m beta l cpi cp2 i m = (\<lambda>(dl, lrenorm).
     let c = cos beta; s = sin beta; omc = 1 - c;
         lamb = ((real l + 1) * omc - real i + real m * c) / s;
         dl = mset dl (i - lp1) (m + 1 - lp1)
                (lamb * cpi ! (m - 1) * mget dl (i - lp1) (m - lp1)
                 - cp2 ! (m - 1) * mget dl (i - lp1) (m - 1 - lp1))
     in if mget dl (i - lp1) (m + 1 - lp1) > big_const
        then (fold (\<lambda>im dl. mset dl (i - lp1) (im - lp1) (mget dl (i - lp1) (im - lp1) * bigi))
                   [1 ..< m + 2] dl,
              lrenorm[i - 1 := lrenorm ! (i - 1) - lbig])
        else (dl, lrenorm))"

text \<open>The body of an outer recursion loop: the two seeds of row \<open>i\<close>, then the loop over \<open>ms\<close>.\<close>

definition recursion_row :: "real \<Rightarrow> nat \<Rightarrow> vec \<Rightarrow> vec \<Rightarrow> nat \<Rightarrow> nat list \<Rightarrow> mat \<times> vec \<Rightarrow> mat \<times> vec" where
  "recursion_row beta l cpi cp2 i ms = (\<lambda>(dl, lrenorm).
     let c = cos beta; s = sin beta; omc = 1 - c;
         dl = mset dl (i - lp1) (1 - lp1) 1;
         lamb = ((real l + 1) * omc - real i + c) / s;
         dl = mset dl (i - lp1) (2 - lp1) (lamb * mget dl (i - lp1) (1 - lp1) * cpi ! 0)
     in fold (recursion_m beta l cpi cp2 i) ms (dl, lrenorm))"

text \<open>The two loop ranges over \<open>m\<close>, with their guards \<^verbatim>\<open>if i > 2\<close> and \<^verbatim>\<open>if i < 2 * l\<close>.\<close>

definition lower_ms :: "nat \<Rightarrow> nat list" where
  "lower_ms i = (if i > 2 then [2 ..< i] else [])"

definition upper_ms :: "nat \<Rightarrow> nat \<Rightarrow> nat list" where
  "upper_ms l i = (if i < 2 * l then [2 ..< 2 * l - i + 2] else [])"

text \<open>The body of a renormalisation loop, for row \<open>i\<close> and the columns \<open>js\<close>.\<close>

definition renorm_row :: "vec \<Rightarrow> vec \<Rightarrow> vec \<Rightarrow> nat \<Rightarrow> nat list \<Rightarrow> mat \<Rightarrow> mat" where
  "renorm_row sign log_first_row lrenorm i js dl =
     (let renorm = sign ! (i - 1) * exp (log_first_row ! (i - 1) - lrenorm ! (i - 1))
      in fold (\<lambda>j dl. mset dl (i - lp1) (j - lp1) (mget dl (i - lp1) (j - lp1) * renorm)) js dl)"

definition cpi_entry :: "nat \<Rightarrow> nat \<Rightarrow> real" where
  "cpi_entry l m =
     (let xm = int l - int m
      in 2 / sqrt (real_of_int (int l * (int l + 1) - xm * (xm + 1))))"

text \<open>
  The text that both functions share from \<^verbatim>\<open>dl[1 - lp1, 1 - lp1] = 1.0\<close> to the end of
  "Apply renormalisation": the two seeds of the first column, the two recursion loops and
  the two renormalisation loops. The functions differ in the ranges of the four outer loops,
  which are the parameters \<open>rec_lower\<close>, \<open>rec_upper\<close>, \<open>ren_lower\<close>, \<open>ren_upper\<close>.
\<close>

definition quarter_recursion ::
    "real \<Rightarrow> nat \<Rightarrow> vec \<Rightarrow> vec \<Rightarrow> vec \<Rightarrow> vec
     \<Rightarrow> nat list \<Rightarrow> nat list \<Rightarrow> nat list \<Rightarrow> nat list \<Rightarrow> mat" where
  "quarter_recursion beta l cpi cp2 log_first_row sign rec_lower rec_upper ren_lower ren_upper =
     (let dl = zeros2 (2 * l + 1) (2 * l + 1);
          dl = mset dl (1 - lp1) (1 - lp1) 1;
          dl = mset dl (2 * l + 1 - lp1) (1 - lp1) 1;
          (dl, lrenorm) = fold (\<lambda>i. recursion_row beta l cpi cp2 i (lower_ms i))
                               rec_lower (dl, zeros (2 * l + 1));
          (dl, lrenorm) = fold (\<lambda>i. recursion_row beta l cpi cp2 i (upper_ms l i))
                               rec_upper (dl, lrenorm);
          dl = fold (\<lambda>i. renorm_row sign log_first_row lrenorm i [1 ..< i + 1]) ren_lower dl;
          dl = fold (\<lambda>i. renorm_row sign log_first_row lrenorm i [1 ..< 2 * l + 2 - i + 1])
                    ren_upper dl
      in dl)"

subsection \<open>turok\_quarter and compute\_full\<close>

text \<open>The general branch of \<^verbatim>\<open>turok_quarter\<close>, reached with \<open>0 < \<bar>beta\<bar> < pi\<close> and \<open>l \<ge> 1\<close>.\<close>

definition turok_quarter_rec :: "real \<Rightarrow> nat \<Rightarrow> mat" where
  "turok_quarter_rec beta l =
     (let (log_first_row, sign) = first_row_vectors beta l;
          (cpi, cp) = fold (\<lambda>m (cpi, cp).
                              let cpi = cpi[m - 1 := cpi_entry l m]
                              in (cpi, cp[m - 1 := 1 / cpi ! (m - 1)]))
                           [1 ..< l + 2] (zeros (2 * l + 1), zeros (2 * l + 1));
          cp2 = fold (\<lambda>m cp2. cp2[m - 1 := cpi ! (m - 1) * cp ! (m - 2)])
                     [2 ..< l + 2] (zeros (2 * l + 1))
      in quarter_recursion beta l cpi cp2 log_first_row sign
           [2 ..< l + 2] [l + 2 ..< 2 * l + 1] [1 ..< l + 2] [l + 2 ..< 2 * l + 2])"

text \<open>
  \<^verbatim>\<open>turok_quarter\<close>. \<^verbatim>\<open>np.identity\<close> and \<^verbatim>\<open>np.zeros\<close> raise on a negative size, which is
  every \<open>l < 0\<close>. With \<open>l = 0\<close> the source returns the scalar \<open>1\<close>, which \<^verbatim>\<open>turok_fill\<close>
  hands back and \<^verbatim>\<open>compute_full\<close> broadcasts into a block of one entry: the one-entry
  matrix stands for it.
\<close>

definition turok_quarter :: "real \<Rightarrow> int \<Rightarrow> error + mat" where
  "turok_quarter beta l =
     (if \<bar>beta\<bar> \<le> 0 then
        (if 2 * l + 1 < 0 then Inl NegativeDimensions else Inr (identity (nat (2 * l + 1))))
      else if \<bar>beta\<bar> \<ge> pi then
        (if 2 * l + 1 < 0 then Inl NegativeDimensions
         else Inr (fold (\<lambda>m dl. mset dl (nat (l - m)) (nat (l + m)) (minus_one_pow (l + m)))
                        [- l .. l] (zeros2 (nat (2 * l + 1)) (nat (2 * l + 1)))))
      else if l = 0 then Inr [[1]]
      else if 2 * l + 1 < 0 then Inl NegativeDimensions
      else Inr (turok_quarter_rec beta (nat l)))"

definition compute_full :: "real \<Rightarrow> int \<Rightarrow> int \<Rightarrow> error + mat" where
  "compute_full beta el L =
     (if el \<ge> L then Inl InvalidBandlimit
      else if 2 * L - 1 < 0 then Inl NegativeDimensions
      else bind (turok_quarter beta el) (\<lambda>q.
        Inr (set_block (zeros2 (nat (2 * L - 1)) (nat (2 * L - 1))) (nat (L - 1 - el))
               (turok_fill q (nat el)))))"

subsection \<open>turok\_quarter\_spin and compute\_spin\_slice\<close>

text \<open>The reflections of the \<^verbatim>\<open>accelerate == True\<close> branch of \<^verbatim>\<open>turok_quarter_spin\<close>.\<close>

definition accelerate_reflect :: "nat \<Rightarrow> int \<Rightarrow> mat \<Rightarrow> mat" where
  "accelerate_reflect l spin dl =
     (let index = nat (int l - spin + 1);
          m_cap = nat (int l - \<bar>spin\<bar> + 1);
          dl = (if spin \<ge> 0 then fold (reflect_diagonal_row l) [index ..< index + 1] dl else dl);
          dl = (if spin < 0
                then fold (\<lambda>i. fold (\<lambda>j dl. mset dl (2 * l + 2 - i - lp1) (2 * l + 2 - j - lp1)
                                               (mget dl (j - lp1) (i - lp1)))
                                 [l + 1 ..< 2 * l + 1 - i + 1])
                          [nat (int l + spin + 1) ..< nat (int l + spin + 2)] dl
                else dl);
          dl = fold (\<lambda>i dl. mset dl (index - lp1) (2 * l - i)
                               (minus_one_pow (spin + int i + 1) * mget dl (nat (int l + spin)) i))
                    [0 ..< m_cap] dl
      in if \<bar>spin\<bar> > 0 then
           (if spin \<ge> 0
            then fst (fold (\<lambda>i (dl, step).
                              (mset dl (index - lp1) (2 * l - i)
                                 (minus_one_pow (spin + int i + 1)
                                  * mget dl (nat (int l + spin) - step) (m_cap - 1)),
                               step + 1))
                           [m_cap ..< l] (dl, 1 :: nat))
            else fst (fold (\<lambda>i (dl, step).
                              (mset dl (index - lp1) (2 * l - i)
                                 (mget dl (nat (int l - spin) - step) (m_cap - 1)),
                               step - 1))
                           [m_cap ..< l] (dl, 2 * nat \<bar>spin\<bar> - 1)))
         else dl)"

text \<open>
  The general branch of \<^verbatim>\<open>turok_quarter_spin\<close>, for \<open>l \<ge> 1\<close> and \<open>\<bar>spin\<bar> \<le> l\<close>, where every
  position is in range. \<open>cp2\<close> is a quotient here and a product with \<open>cp\<close> in
  \<^verbatim>\<open>turok_quarter\<close>.
\<close>

definition turok_quarter_spin_rec :: "real \<Rightarrow> nat \<Rightarrow> int \<Rightarrow> bool \<Rightarrow> vec" where
  "turok_quarter_spin_rec beta l spin accelerate =
     (let (log_first_row, sign) = first_row_vectors beta l;
          cpi = fold (\<lambda>m cpi. cpi[m - 1 := cpi_entry l m]) [1 ..< l + 2] (zeros (2 * l + 1));
          cp2 = fold (\<lambda>m cp2. cp2[m - 1 := cpi ! (m - 1) / cpi ! (m - 2)])
                     [2 ..< l + 2] (zeros (2 * l + 1));
          index = nat (int l - spin + 1);
          dl = quarter_recursion beta l cpi cp2 log_first_row sign
                 [l - nat \<bar>spin\<bar> + lp1 ..< l + 2] [l + 2 ..< l + nat \<bar>spin\<bar> + 2]
                 [l - nat \<bar>spin\<bar> + lp1 ..< l + 2] [l + 2 ..< l + nat \<bar>spin\<bar> + 2];
          dl = (if accelerate then accelerate_reflect l spin dl else turok_fill dl l)
      in dl ! (index - lp1))"

text \<open>
  \<^verbatim>\<open>turok_quarter_spin\<close>. In the two closed-form branches the one assignment goes through
  numpy's index rule, so a position below zero wraps and one past the end raises. In the
  general branch with \<open>l \<ge> 1\<close> and \<open>\<bar>spin\<bar> > l\<close> the second recursion loop runs up to
  \<open>i = l + \<bar>spin\<bar> + 1 \<ge> 2l + 2\<close>, where \<^verbatim>\<open>dl[i - lp1, 1 - lp1]\<close> is out of bounds, unless a
  row position of the first loop was out of bounds before: an \<^verbatim>\<open>IndexError\<close> either way.
  With \<open>l = 0\<close> the scalar \<open>1\<close> that the source returns is the one-entry vector.
\<close>

definition turok_quarter_spin :: "real \<Rightarrow> int \<Rightarrow> int \<Rightarrow> bool \<Rightarrow> error + vec" where
  "turok_quarter_spin beta l spin accelerate =
     (if \<bar>beta\<bar> \<le> 0 then
        (if 2 * l + 1 < 0 then Inl NegativeDimensions
         else bind (py_index (nat (2 * l + 1)) (l - spin)) (\<lambda>k.
                Inr ((zeros (nat (2 * l + 1)))[k := 1])))
      else if \<bar>beta\<bar> \<ge> pi then
        (if 2 * l + 1 < 0 then Inl NegativeDimensions
         else bind (py_index (nat (2 * l + 1)) (l + spin)) (\<lambda>k.
                Inr ((zeros (nat (2 * l + 1)))[k := minus_one_pow (l + spin)])))
      else if l = 0 then Inr [1]
      else if 2 * l + 1 < 0 then Inl NegativeDimensions
      else if \<bar>spin\<bar> > l then Inl IndexError
      else Inr (turok_quarter_spin_rec beta (nat l) spin accelerate))"

definition compute_spin_slice :: "real \<Rightarrow> int \<Rightarrow> int \<Rightarrow> int \<Rightarrow> bool \<Rightarrow> error + vec" where
  "compute_spin_slice beta el L spin accelerate =
     (if el < spin then Inl SpinExceedsDegree
      else if accelerate then Inl UnsupportedSampling
      else if el \<ge> L then Inl InvalidBandlimit
      else if 2 * L - 1 < 0 then Inl NegativeDimensions
      else bind (turok_quarter_spin beta el spin accelerate) (\<lambda>v.
        if int (length v) = (L + el) - (L - 1 - el)
        then Inr (set_slice (zeros (nat (2 * L - 1))) (nat (L - 1 - el)) v)
        else Inl ShapeMismatch))"

section \<open>Coefficient layouts (utils.py)\<close>

text \<open>
  Modelled from the spec: \<^verbatim>\<open>samples.elm2ind\<close> and \<^verbatim>\<open>samples.ncoeff\<close> are called by the
  sources and are not among them. The spec's Coefficient Index Map is the bijection between
  a pair \<open>(el, m)\<close> and a flat offset; the flat order is the one that utils.py documents,
  \<^verbatim>\<open>[flm_{0,0}, flm_{1,-1}, flm_{1,0}, flm_{1,1}, ...]\<close>, one value per pair with
  \<open>0 \<le> el < L\<close> and \<open>-el \<le> m \<le> el\<close>.
\<close>

definition elm2ind :: "int \<Rightarrow> int \<Rightarrow> int" where
  "elm2ind el m = el * el + el + m"

definition ncoeff :: "int \<Rightarrow> int" where
  "ncoeff L = L * L"

text \<open>An \<^verbatim>\<open>np.ndarray\<close> by the length of its shape: one axis, two axes, or another number.\<close>

datatype 'a ndarray = Array1 "'a list" | Array2 "'a list list" | ArrayN nat

definition vget_py :: "'a list \<Rightarrow> int \<Rightarrow> error + 'a" where
  "vget_py xs i = bind (py_index (length xs) i) (\<lambda>k. Inr (xs ! k))"

definition vset_py :: "'a list \<Rightarrow> int \<Rightarrow> 'a \<Rightarrow> error + 'a list" where
  "vset_py xs i v = bind (py_index (length xs) i) (\<lambda>k. Inr (xs[k := v]))"

definition mget_py :: "'a list list \<Rightarrow> int \<Rightarrow> int \<Rightarrow> error + 'a" where
  "mget_py dl i j =
     bind (py_index (length dl) i) (\<lambda>r.
     bind (py_index (length (dl ! r)) j) (\<lambda>c. Inr (dl ! r ! c)))"

definition mset_py :: "'a list list \<Rightarrow> int \<Rightarrow> int \<Rightarrow> 'a \<Rightarrow> error + 'a list list" where
  "mset_py dl i j v =
     bind (py_index (length dl) i) (\<lambda>r.
     bind (py_index (length (dl ! r)) j) (\<lambda>c. Inr (mset dl r c v)))"

definition flm_2d_to_1d :: "complex ndarray \<Rightarrow> int \<Rightarrow> error + complex list" where
  "flm_2d_to_1d flm_2d L =
     (let flm_1d = zeros (nat (ncoeff L))
      in case flm_2d of
           Array1 xs \<Rightarrow> Inl AlreadyIndexed
         | ArrayN d \<Rightarrow> Inl BadDimension
         | Array2 tab \<Rightarrow>
             foldM (\<lambda>el. foldM (\<lambda>m flm_1d.
                            bind (mget_py tab el (L - 1 + m)) (\<lambda>v.
                              vset_py flm_1d (elm2ind el m) v))
                          [- el .. el])
                   [0 .. L - 1] flm_1d)"

definition flm_1d_to_2d :: "complex ndarray \<Rightarrow> int \<Rightarrow> error + complex list list" where
  "flm_1d_to_2d flm_1d L =
     (if L < 0 \<or> 2 * L - 1 < 0 then Inl NegativeDimensions
      else
        let flm_2d = zeros2 (nat L) (nat (2 * L - 1))
        in case flm_1d of
             Array2 tab \<Rightarrow> Inl AlreadyIndexed
           | ArrayN d \<Rightarrow> Inl BadDimension
           | Array1 xs \<Rightarrow>
               foldM (\<lambda>el. foldM (\<lambda>m flm_2d.
                              bind (vget_py xs (elm2ind el m)) (\<lambda>v.
                                mset_py flm_2d el (L - 1 + m) v))
                            [- el .. el])
                     [0 .. L - 1] flm_2d)"

section \<open>Transform engine (transform.py)\<close>

text \<open>
  The sampling provider (\<^verbatim>\<open>s2fft.sampling\<close>) and the kernel \<^verbatim>\<open>wigner.risbo.compute_full\<close>
  are called by transform.py and are not among the sources: the transforms take them as a
  parameter, each of them free to raise.
\<close>

record collaborators =
  ntheta :: "int \<Rightarrow> string \<Rightarrow> error + nat"
  nphi_equiang :: "int \<Rightarrow> string \<Rightarrow> error + nat"
  thetas :: "int \<Rightarrow> string \<Rightarrow> error + real list"
  phis_equiang :: "int \<Rightarrow> string \<Rightarrow> error + real list"
  weight_dh :: "real \<Rightarrow> int \<Rightarrow> error + real"
  risbo_compute_full :: "mat \<Rightarrow> real \<Rightarrow> int \<Rightarrow> int \<Rightarrow> error + mat"

text \<open>\<^verbatim>\<open>a[t, p] += v\<close> with \<open>t\<close>, \<open>p\<close> from \<^verbatim>\<open>enumerate\<close>, and with a first index from a range.\<close>

definition madd :: "complex list list \<Rightarrow> nat \<Rightarrow> nat \<Rightarrow> complex \<Rightarrow> error + complex list list" where
  "madd f t p v =
     (if t < length f \<and> p < length (f ! t) then Inr (mset f t p (mget f t p + v))
      else Inl IndexError)"

definition madd_py :: "complex list list \<Rightarrow> int \<Rightarrow> int \<Rightarrow> complex \<Rightarrow> error + complex list list" where
  "madd_py a i j v = bind (mget_py a i j) (\<lambda>old. mset_py a i j (old + v))"

definition enumerate_from0 :: "'a list \<Rightarrow> (nat \<times> 'a) list" where
  "enumerate_from0 xs = zip [0 ..< length xs] xs"

definition elfactor :: "int \<Rightarrow> real" where
  "elfactor el = sqrt (real_of_int (2 * el + 1) / (4 * pi))"

definition inverse_direct ::
    "collaborators \<Rightarrow> complex list \<Rightarrow> int \<Rightarrow> int \<Rightarrow> string \<Rightarrow> error + complex list list" where
  "inverse_direct S flm L spin sampling =
     bind (ntheta S L sampling) (\<lambda>ntheta.
     bind (nphi_equiang S L sampling) (\<lambda>nphi.
     bind (thetas S L sampling) (\<lambda>thetas.
     bind (phis_equiang S L sampling) (\<lambda>phis_equiang.
     if 2 * L - 1 < 0 then Inl NegativeDimensions
     else
       bind (foldM (\<lambda>(t, theta). foldM (\<lambda>el (dl, f).
                      bind (risbo_compute_full S dl theta L el) (\<lambda>dl.
                        if el \<ge> \<bar>spin\<bar> then
                          bind (foldM (\<lambda>m. foldM (\<lambda>(p, phi) f.
                                         bind (mget_py dl (m + L - 1) (- spin + L - 1)) (\<lambda>d.
                                         bind (vget_py flm (elm2ind el m)) (\<lambda>c.
                                           madd f t p
                                             (of_real (minus_one_pow spin) * of_real (elfactor el)
                                              * exp (\<i> * of_int m * of_real phi)
                                              * of_real d * c))))
                                       (enumerate_from0 phis_equiang))
                                     [- el .. el] f)
                               (\<lambda>f. Inr (dl, f))
                        else Inr (dl, f)))
                    [0 .. L - 1])
                   (enumerate_from0 thetas)
                   (zeros2 (nat (2 * L - 1)) (nat (2 * L - 1)), zeros2 ntheta nphi))
            (\<lambda>(dl, f). Inr f)))))"

text \<open>The first stage of both separation-of-variables variants (the same text in both).\<close>

definition sov_fmt ::
    "collaborators \<Rightarrow> complex list \<Rightarrow> int \<Rightarrow> int \<Rightarrow> nat \<Rightarrow> real list \<Rightarrow> error + complex list list" where
  "sov_fmt S flm L spin n_theta theta_list =
     bind (foldM (\<lambda>(t, theta). foldM (\<lambda>el (dl, fmt).
                    bind (risbo_compute_full S dl theta L el) (\<lambda>dl.
                      if el \<ge> \<bar>spin\<bar> then
                        bind (foldM (\<lambda>m fmt.
                                       bind (mget_py dl (m + L - 1) (- spin + L - 1)) (\<lambda>d.
                                       bind (vget_py flm (elm2ind el m)) (\<lambda>c.
                                         madd_py fmt (m + L - 1) (int t)
                                           (of_real (minus_one_pow spin) * of_real (elfactor el)
                                            * of_real d * c))))
                                   [- el .. el] fmt)
                             (\<lambda>fmt. Inr (dl, fmt))
                      else Inr (dl, fmt)))
                  [0 .. L - 1])
                 (enumerate_from0 theta_list)
                 (zeros2 (nat (2 * L - 1)) (nat (2 * L - 1)), zeros2 (nat (2 * L - 1)) n_theta))
          (\<lambda>(dl, fmt). Inr fmt)"

definition inverse_sov ::
    "collaborators \<Rightarrow> complex list \<Rightarrow> int \<Rightarrow> int \<Rightarrow> string \<Rightarrow> error + complex list list" where
  "inverse_sov S flm L spin sampling =
     bind (ntheta S L sampling) (\<lambda>ntheta.
     bind (nphi_equiang S L sampling) (\<lambda>nphi.
     bind (thetas S L sampling) (\<lambda>thetas.
     bind (phis_equiang S L sampling) (\<lambda>phis_equiang.
     if 2 * L - 1 < 0 then Inl NegativeDimensions
     else
       bind (sov_fmt S flm L spin ntheta thetas) (\<lambda>fmt.
         foldM (\<lambda>(t, theta). foldM (\<lambda>(p, phi). foldM (\<lambda>m f.
                  bind (mget_py fmt (m + L - 1) (int t)) (\<lambda>v.
                    madd f t p (v * exp (\<i> * of_int m * of_real phi))))
                  [- (L - 1) .. L - 1])
                (enumerate_from0 phis_equiang))
               (enumerate_from0 thetas) (zeros2 ntheta nphi))))))"

text \<open>
  \<^verbatim>\<open>numpy.fft.ifft(a, norm="forward")\<close> on one sequence: the inverse discrete Fourier
  transform with no scaling.
\<close>

definition ifft_forward :: "complex list \<Rightarrow> complex list" where
  "ifft_forward xs =
     map (\<lambda>k. \<Sum>n \<leftarrow> [0 ..< length xs].
                xs ! n * exp (2 * of_real pi * \<i> * of_nat k * of_nat n / of_nat (length xs)))
         [0 ..< length xs]"

text \<open>
  \<^verbatim>\<open>a[lo : hi, t]\<close> read and \<^verbatim>\<open>a[lo : lo + len(v), t] = v\<close> written, for a column \<open>t\<close> from
  \<^verbatim>\<open>enumerate\<close> (the slice bounds of the source are in range for \<open>L \<ge> 1\<close>).
\<close>

definition column_slice :: "'a list list \<Rightarrow> nat \<Rightarrow> nat \<Rightarrow> nat \<Rightarrow> error + 'a list" where
  "column_slice a lo hi t =
     foldM (\<lambda>r acc. if r < length a \<and> t < length (a ! r) then Inr (acc @ [a ! r ! t])
                     else Inl IndexError)
           [lo ..< hi] []"

definition set_column_slice :: "'a list list \<Rightarrow> nat \<Rightarrow> nat \<Rightarrow> 'a list \<Rightarrow> error + 'a list list" where
  "set_column_slice a lo t v =
     foldM (\<lambda>k a. if lo + k < length a \<and> t < length (a ! (lo + k))
                   then Inr (mset a (lo + k) t (v ! k))
                   else Inl IndexError)
           [0 ..< length v] a"

definition inverse_sov_fft ::
    "collaborators \<Rightarrow> complex list \<Rightarrow> int \<Rightarrow> int \<Rightarrow> string \<Rightarrow> error + complex list list" where
  "inverse_sov_fft S flm L spin sampling =
     bind (ntheta S L sampling) (\<lambda>ntheta.
     bind (nphi_equiang S L sampling) (\<lambda>nphi.
     bind (thetas S L sampling) (\<lambda>thetas.
     bind (phis_equiang S L sampling) (\<lambda>phis_equiang.
     if 2 * L - 1 < 0 then Inl NegativeDimensions
     else
       bind (sov_fmt S flm L spin ntheta thetas) (\<lambda>fmt.
       bind (foldM (\<lambda>(t, theta) fmt_shift.
                      bind (column_slice fmt (nat (L - 1)) (nat (2 * L - 1)) t) (\<lambda>hi.
                      bind (set_column_slice fmt_shift 0 t hi) (\<lambda>fmt_shift.
                      bind (column_slice fmt 0 (nat (L - 1)) t) (\<lambda>lo.
                        set_column_slice fmt_shift (nat L) t lo))))
                   (enumerate_from0 thetas) (zeros2 (nat (2 * L - 1)) ntheta))
            (\<lambda>fmt_shift.
              Inr (map (\<lambda>t. ifft_forward (map (\<lambda>row. row ! t) fmt_shift)) [0 ..< ntheta])))))))"

text \<open>\<^verbatim>\<open>str.lower\<close> on the ASCII letters.\<close>

definition lower_char :: "char \<Rightarrow> char" where
  "lower_char c =
     (let n = (of_char c :: nat) in if 65 \<le> n \<and> n \<le> 90 then char_of (n + 32) else c)"

definition lower :: "string \<Rightarrow> string" where
  "lower s = map lower_char s"

definition forward_direct ::
    "collaborators \<Rightarrow> complex list list \<Rightarrow> int \<Rightarrow> int \<Rightarrow> string \<Rightarrow> error + complex list" where
  "forward_direct S f L spin sampling =
     (if lower sampling \<noteq> ''dh'' then Inl UnsupportedSampling
      else
        bind (thetas S L sampling) (\<lambda>thetas.
        bind (phis_equiang S L sampling) (\<lambda>phis_equiang.
        if 2 * L - 1 < 0 then Inl NegativeDimensions
        else
          bind (foldM (\<lambda>(t, theta) (dl, flm).
                         bind (weight_dh S theta L) (\<lambda>w.
                           let weight = w * 2 * pi / real_of_int (2 * L - 1)
                           in foldM (\<lambda>el (dl, flm).
                                bind (risbo_compute_full S dl theta L el) (\<lambda>dl.
                                  if el \<ge> \<bar>spin\<bar> then
                                    bind (foldM (\<lambda>m. foldM (\<lambda>(p, phi) flm.
                                                   bind (vget_py flm (elm2ind el m)) (\<lambda>old.
                                                   bind (mget_py dl (m + L - 1) (- spin + L - 1)) (\<lambda>d.
                                                   bind (mget_py f (int t) (int p)) (\<lambda>v.
                                                     vset_py flm (elm2ind el m)
                                                       (old + of_real weight
                                                          * of_real (minus_one_pow spin)
                                                          * of_real (elfactor el)
                                                          * exp (- \<i> * of_int m * of_real phi)
                                                          * of_real d * v)))))
                                                 (enumerate_from0 phis_equiang))
                                               [- el .. el] flm)
                                         (\<lambda>flm. Inr (dl, flm))
                                  else Inr (dl, flm)))
                              [0 .. L - 1] (dl, flm)))
                      (enumerate_from0 thetas)
                      (zeros2 (nat (2 * L - 1)) (nat (2 * L - 1)), zeros (nat (ncoeff L))))
               (\<lambda>(dl, flm). Inr flm))))"

section \<open>Closed forms used by the statements\<close>

text \<open>A matrix of \<open>n\<close> rows of \<open>n\<close> entries.\<close>

definition square :: "nat \<Rightarrow> 'a list list \<Rightarrow> bool" where
  "square n dl = (length dl = n \<and> list_all (\<lambda>row. length row = n) dl)"

text \<open>The \<open>n \<times> n\<close> matrix with entry \<open>f r c\<close> in row \<open>r\<close>, column \<open>c\<close>.\<close>

definition mat_of :: "nat \<Rightarrow> (nat \<Rightarrow> nat \<Rightarrow> 'a) \<Rightarrow> 'a list list" where
  "mat_of n f = map (\<lambda>r. map (\<lambda>c. f r c) [0..<n]) [0..<n]"

text \<open>The matrix that the \<open>\<bar>beta\<bar> \<ge> pi\<close> branch of \<^verbatim>\<open>turok_quarter\<close> builds, in closed form.\<close>

definition antidiagonal :: "nat \<Rightarrow> mat" where
  "antidiagonal l = mat_of (2 * l + 1) (\<lambda>r c. if r + c = 2 * l then (- 1) ^ c else 0)"

text \<open>A table of \<open>R\<close> rows of \<open>C\<close> entries.\<close>

definition rect :: "nat \<Rightarrow> nat \<Rightarrow> 'a list list \<Rightarrow> bool" where
  "rect R C dl = (length dl = R \<and> list_all (\<lambda>row. length row = C) dl)"

text \<open>
  A loop of assignments \<^verbatim>\<open>dl[tgt x] = val x dl\<close> over \<open>xs\<close>, and the pairs that a nested
  loop runs through: the forms in which the loops of the source are reasoned about.
\<close>

definition writes ::
    "('x \<Rightarrow> nat \<times> nat) \<Rightarrow> ('x \<Rightarrow> 'a list list \<Rightarrow> 'a) \<Rightarrow> 'x list \<Rightarrow> 'a list list \<Rightarrow> 'a list list" where
  "writes tgt val xs dl = fold (\<lambda>x dl. mset dl (fst (tgt x)) (snd (tgt x)) (val x dl)) xs dl"

definition pairs :: "'i list \<Rightarrow> ('i \<Rightarrow> 'j list) \<Rightarrow> ('i \<times> 'j) list" where
  "pairs is js = concat (map (\<lambda>i. map (Pair i) (js i)) is)"

text \<open>
  The pairs \<open>(el, m)\<close> that the two layout conversions run through, the table position of a
  pair, and a loop of assignments \<^verbatim>\<open>v[key x] = val x\<close> on a vector.
\<close>

definition triangle :: "int \<Rightarrow> (int \<times> int) list" where
  "triangle L = pairs [0 .. L - 1] (\<lambda>el. [- el .. el])"

definition table_target :: "int \<Rightarrow> int \<times> int \<Rightarrow> nat \<times> nat" where
  "table_target L = (\<lambda>(el, m). (nat el, nat (L - 1 + m)))"

definition vwrites :: "('x \<Rightarrow> nat) \<Rightarrow> ('x \<Rightarrow> 'a) \<Rightarrow> 'x list \<Rightarrow> 'a list \<Rightarrow> 'a list" where
  "vwrites key val xs v = fold (\<lambda>x v. v[key x := val x]) xs v"

text \<open>
  The entries of an \<open>L \<times> (2L-1)\<close> table outside the triangle \<open>\<bar>m\<bar> \<le> el\<close> are zero
  (row \<open>el\<close>, column \<open>L - 1 + m\<close>).
\<close>

definition zero_outside_triangle :: "int \<Rightarrow> complex list list \<Rightarrow> bool" where
  "zero_outside_triangle L y =
     list_all (\<lambda>r. list_all (\<lambda>c. \<bar>int c - (L - 1)\<bar> \<le> int r \<or> mget y r c = 0)
                         [0 ..< nat (2 * L - 1)])
              [0 ..< nat L]"

text \<open>
  The coefficient vector with the coefficients of the degrees \<open>el < \<bar>spin\<bar>\<close> replaced by
  zero: \<^verbatim>\<open>flm[elm2ind(el, m)] = 0\<close> for every such \<open>el\<close> and \<open>-el \<le> m \<le> el\<close> that the vector
  holds.
\<close>

definition zero_below_spin :: "complex list \<Rightarrow> int \<Rightarrow> complex list" where
  "zero_below_spin flm spin =
     vwrites (\<lambda>(el, m). nat (elm2ind el m)) (\<lambda>(el, m). 0) (triangle \<bar>spin\<bar>) flm"

text \<open>
  A sequence of assignments \<^verbatim>\<open>dl[t] = dl[s] * k\<close> (every loop of \<^verbatim>\<open>turok_fill\<close> is one), and
  two matrices that agree on a set of positions.
\<close>

definition copies :: "((nat \<times> nat) \<times> (nat \<times> nat) \<times> real) list \<Rightarrow> mat \<Rightarrow> mat" where
  "copies ops dl =
     fold (\<lambda>(t, s, k) dl. mset dl (fst t) (snd t) (mget dl (fst s) (snd s) * k)) ops dl"













text \<open>
  Two matrices with the same row \<open>k\<close>, and two states (matrix, \<^verbatim>\<open>lrenorm\<close>) of the recursion
  with the same row \<open>k\<close> and the same \<^verbatim>\<open>lrenorm[k]\<close>.
\<close>

definition rows_eq :: "nat \<Rightarrow> mat \<Rightarrow> mat \<Rightarrow> bool" where
  "rows_eq k D D' = (k < length D \<and> k < length D' \<and> D ! k = D' ! k)"

definition same_state :: "nat \<Rightarrow> mat \<times> vec \<Rightarrow> mat \<times> vec \<Rightarrow> bool" where
  "same_state k S S' =
     (rows_eq k (fst S) (fst S') \<and> k < length (snd S) \<and> k < length (snd S')
      \<and> snd S ! k = snd S' ! k)"





section \<open>Verification\<close>

subsection \<open>Arrays and loops\<close>

lemma mset_length [simp]: "length (mset dl i j v) = length dl"
  by (simp add: mset_def)

lemma mset_row_length [simp]: "length (mset dl i j v ! r) = length (dl ! r)"
  by (cases "i < length dl"; cases "r = i") (simp_all add: mset_def not_less list_update_beyond)

lemma square_iff: "square n dl \<longleftrightarrow> length dl = n \<and> (\<forall>r < n. length (dl ! r) = n)"
  by (auto simp: square_def list_all_length)

lemma square_mset [simp]: "square n (mset dl i j v) = square n dl"
  by (simp add: square_iff)

lemma mget_mset:
  "a < length dl \<Longrightarrow> b < length (dl ! a) \<Longrightarrow>
   mget (mset dl a b v) r c = (if r = a \<and> c = b then v else mget dl r c)"
  by (auto simp: mget_def mset_def nth_list_update)

lemma mset_same: "mget dl a b = v \<Longrightarrow> mset dl a b v = dl"
  by (auto simp: mget_def mset_def)

lemma mat_eqI:
  assumes "square n A" "square n B" "\<And>r c. r < n \<Longrightarrow> c < n \<Longrightarrow> mget A r c = mget B r c"
  shows "A = B"
proof (rule nth_equalityI)
  show "length A = length B" using assms by (simp add: square_iff)
next
  fix r assume "r < length A"
  then have r: "r < n" using assms(1) by (simp add: square_iff)
  show "A ! r = B ! r"
  proof (rule nth_equalityI)
    show "length (A ! r) = length (B ! r)" using assms r by (simp add: square_iff)
  next
    fix c assume "c < length (A ! r)"
    then have "c < n" using assms(1) r by (simp add: square_iff)
    then show "A ! r ! c = B ! r ! c" using assms(3)[OF r] by (simp add: mget_def)
  qed
qed

lemma square_mat_of [simp]: "square n (mat_of n f)"
  by (simp add: square_iff mat_of_def)

lemma mget_mat_of [simp]: "a < n \<Longrightarrow> b < n \<Longrightarrow> mget (mat_of n f) a b = f a b"
  by (simp add: mget_def mat_of_def)

lemma square_zeros2 [simp]: "square n (zeros2 n n)"
  by (simp add: square_iff zeros2_def)

lemma mget_zeros2 [simp]: "a < n \<Longrightarrow> b < m \<Longrightarrow> mget (zeros2 n m) a b = 0"
  by (simp add: mget_def zeros2_def)

lemma square_identity [simp]: "square n (identity n)"
  by (simp add: square_iff identity_def)

lemma mget_identity: "a < n \<Longrightarrow> b < n \<Longrightarrow> mget (identity n) a b = (if a = b then 1 else 0)"
  by (simp add: mget_def identity_def)

lemma square_antidiagonal [simp]: "square (2 * l + 1) (antidiagonal l)"
  unfolding antidiagonal_def by (rule square_mat_of)

lemma mget_antidiagonal:
  "a < 2 * l + 1 \<Longrightarrow> b < 2 * l + 1 \<Longrightarrow>
   mget (antidiagonal l) a b = (if a + b = 2 * l then (- 1) ^ b else 0)"
  unfolding antidiagonal_def by (rule mget_mat_of)


lemma fold_fixed: "(\<And>x. x \<in> set xs \<Longrightarrow> f x s = s) \<Longrightarrow> fold f xs s = s"
  by (induction xs) simp_all

lemma fst_fold_fixed:
  "(\<And>x s. x \<in> set xs \<Longrightarrow> fst (f x (d, s)) = d) \<Longrightarrow> fst (fold f xs (d, s0)) = d"
proof (induction xs arbitrary: s0)
  case Nil show ?case by simp
next
  case (Cons x xs)
  obtain s1 where "f x (d, s0) = (d, s1)"
    using Cons.prems[of x s0] by (cases "f x (d, s0)") auto
  then show ?case using Cons by simp
qed

text \<open>A loop that threads an alternating sign is the loop with the sign written out.\<close>

lemma fold_sgn:
  "fold (\<lambda>j (dl, sgn). (F j sgn dl, sgn * (- 1))) [a ..< a + k] (dl, s0 :: real)
     = (fold (\<lambda>j dl. F j (s0 * (- 1) ^ (j - a)) dl) [a ..< a + k] dl, s0 * (- 1) ^ k)"
proof (induction k)
  case 0 show ?case by simp
next
  case (Suc k)
  have "[a ..< a + Suc k] = [a ..< a + k] @ [a + k]" by simp
  then show ?case using Suc by (simp del: upt_Suc)
qed

lemma minus_one_power_cong: "even (a + b) \<Longrightarrow> (- 1 :: real) ^ a = (- 1) ^ b"
  by (metis even_add minus_one_power_iff)

subsection \<open>turok\_fill leaves the two closed-form matrices as they are\<close>

lemma reflect_antidiagonal_identity:
  "reflect_antidiagonal l (identity (2 * l + 1)) = identity (2 * l + 1)"
  unfolding reflect_antidiagonal_def
  by (intro fold_fixed mset_same) (auto simp: mget_identity)

lemma reflect_diagonal_identity:
  "reflect_diagonal l (identity (2 * l + 1)) = identity (2 * l + 1)"
  unfolding reflect_diagonal_def reflect_diagonal_row_def
  apply (intro fold_fixed fst_fold_fixed)
  apply simp
  apply (rule mset_same)
  apply (auto simp: mget_identity)
  done

lemma fill_right_identity:
  "fill_right l (identity (2 * l + 1)) = identity (2 * l + 1)"
  unfolding fill_right_def
proof (intro fold_fixed)
  fix i assume i: "i \<in> set [l + 2 ..< 2 * l + 2]"
  have a: "fst (fold (\<lambda>j (dl, sgn). (mset dl (j - 1) (i - 1) (mget dl (i - 1) (j - 1) * sgn),
                                      sgn * (- 1)))
                     [1 ..< 2 * l + 2 - i + 1] (identity (2 * l + 1), (- 1 :: real) ^ (i + 1)))
           = identity (2 * l + 1)"
    using i by (intro fst_fold_fixed) (auto intro!: mset_same simp: mget_identity)
  have b: "fold (\<lambda>j dl. mset dl (j - 1) (i - 1) (mget dl (2 * l + 2 - i - 1) (2 * l + 2 - j - 1)))
                [i ..< 2 * l + 2] (identity (2 * l + 1)) = identity (2 * l + 1)"
    using i by (intro fold_fixed mset_same) (auto simp: mget_identity)
  show "fill_right_column l i (identity (2 * l + 1)) = identity (2 * l + 1)"
    unfolding fill_right_column_def Let_def a b ..
qed

lemma fill_rest_identity:
  "fill_rest l (identity (2 * l + 1)) = identity (2 * l + 1)"
  unfolding fill_rest_def
  by (intro fold_fixed mset_same) (auto simp: mget_identity)

lemma turok_fill_identity: "turok_fill (identity (2 * l + 1)) l = identity (2 * l + 1)"
  unfolding turok_fill_def reflect_antidiagonal_identity reflect_diagonal_identity
    fill_right_identity fill_rest_identity ..

lemma reflect_antidiagonal_antidiagonal:
  "reflect_antidiagonal l (antidiagonal l) = antidiagonal l"
  unfolding reflect_antidiagonal_def
  by (intro fold_fixed mset_same) (auto simp: mget_antidiagonal)

lemma reflect_diagonal_antidiagonal:
  "reflect_diagonal l (antidiagonal l) = antidiagonal l"
  unfolding reflect_diagonal_def reflect_diagonal_row_def
  apply (intro fold_fixed fst_fold_fixed)
  apply simp
  apply (rule mset_same)
  apply (auto simp: mget_antidiagonal)
  done

lemma fill_rest_antidiagonal:
  "fill_rest l (antidiagonal l) = antidiagonal l"
  unfolding fill_rest_def
  by (intro fold_fixed mset_same) (auto simp: mget_antidiagonal)

lemma fill_right_antidiagonal:
  "fill_right l (antidiagonal l) = antidiagonal l"
  unfolding fill_right_def
proof (intro fold_fixed)
  fix i assume i: "i \<in> set [l + 2 ..< 2 * l + 2]"
  have r: "[1 ..< 2 * l + 2 - i + 1] = [1 ..< 1 + (2 * l + 2 - i)]" by simp
  have a: "fst (fold (\<lambda>j (dl, sgn). (mset dl (j - 1) (i - 1) (mget dl (i - 1) (j - 1) * sgn),
                                      sgn * (- 1)))
                     [1 ..< 2 * l + 2 - i + 1] (antidiagonal l, (- 1 :: real) ^ (i + 1)))
           = antidiagonal l"
    unfolding r fold_sgn fst_conv
  proof (intro fold_fixed mset_same)
    fix j assume j: "j \<in> set [1 ..< 1 + (2 * l + 2 - i)]"
    show "mget (antidiagonal l) (j - 1) (i - 1)
          = mget (antidiagonal l) (i - 1) (j - 1) * ((- 1) ^ (i + 1) * (- 1) ^ (j - 1))"
    proof (cases "i + j = 2 * l + 2")
      case True
      have il: "l + 2 \<le> i" "i \<le> 2 * l + 1" "1 \<le> j" using i j by auto
      have ij: "i - 1 < 2 * l + 1" "j - 1 < 2 * l + 1"
        "(i - 1) + (j - 1) = 2 * l" "(j - 1) + (i - 1) = 2 * l"
        using il True by auto
      have m1: "mget (antidiagonal l) (i - 1) (j - 1) = (- 1) ^ (j - 1)"
        using mget_antidiagonal[OF ij(1) ij(2)] ij(3) by simp
      have m2: "mget (antidiagonal l) (j - 1) (i - 1) = (- 1) ^ (i - 1)"
        using mget_antidiagonal[OF ij(2) ij(1)] ij(4) by simp
      have "(- 1 :: real) ^ (j - 1) * (- 1) ^ (j - 1) = 1"
        by (simp flip: power_mult_distrib)
      then have "((- 1 :: real) ^ (j - 1)) * ((- 1) ^ (i + 1) * (- 1) ^ (j - 1)) = (- 1) ^ (i + 1)"
        by (simp add: mult.left_commute)
      also have "\<dots> = (- 1) ^ (i - 1)" using il by (intro minus_one_power_cong) auto
      finally show ?thesis unfolding m1 m2 by simp
    next
      case False
      have il: "l + 2 \<le> i" "i \<le> 2 * l + 1" "1 \<le> j" "j \<le> 2 * l + 2 - i" using i j by auto
      have ij: "i - 1 < 2 * l + 1" "j - 1 < 2 * l + 1"
        "(i - 1) + (j - 1) \<noteq> 2 * l" "(j - 1) + (i - 1) \<noteq> 2 * l"
        using il False by auto
      show ?thesis
        using mget_antidiagonal[OF ij(1) ij(2)] mget_antidiagonal[OF ij(2) ij(1)] ij(3,4) by simp
    qed
  qed
  have b: "fold (\<lambda>j dl. mset dl (j - 1) (i - 1) (mget dl (2 * l + 2 - i - 1) (2 * l + 2 - j - 1)))
                [i ..< 2 * l + 2] (antidiagonal l) = antidiagonal l"
    using i by (intro fold_fixed mset_same) (auto simp: mget_antidiagonal)
  show "fill_right_column l i (antidiagonal l) = antidiagonal l"
    unfolding fill_right_column_def Let_def a b ..
qed

lemma turok_fill_antidiagonal: "turok_fill (antidiagonal l) l = antidiagonal l"
  unfolding turok_fill_def reflect_antidiagonal_antidiagonal reflect_diagonal_antidiagonal
    fill_right_antidiagonal fill_rest_antidiagonal ..

subsection \<open>The closed-form branches of turok\_quarter\<close>

lemma fold_snoc: "fold f (xs @ [x]) s = f x (fold f xs s)" by simp



lemma mget_mset_square:
  "square n dl \<Longrightarrow> a < n \<Longrightarrow> b < n \<Longrightarrow>
   mget (mset dl a b v) r c = (if r = a \<and> c = b then v else mget dl r c)"
  by (rule mget_mset) (simp_all add: square_iff)

lemma pi_not_le_zero [simp]: "\<not> pi \<le> 0"
  using pi_gt_zero by (simp add: not_le)

lemma antidiagonal_loop_upto:
  fixes l :: int
  assumes l: "0 \<le> l" and k: "- l - 1 \<le> k" "k \<le> l"
  shows "fold (\<lambda>m dl. mset dl (nat (l - m)) (nat (l + m)) (minus_one_pow (l + m)))
              [- l .. k] (zeros2 (nat (2 * l + 1)) (nat (2 * l + 1)))
         = mat_of (nat (2 * l + 1))
             (\<lambda>r c. if int r + int c = 2 * l \<and> int c \<le> l + k then (- 1) ^ c else 0)"
  using k
proof (induction k rule: int_ge_induct)
  case base
  show ?case
    by (intro mat_eqI[where n="nat (2 * l + 1)"]) auto
next
  case (step k)
  let ?n = "nat (2 * l + 1)"
  let ?M = "mat_of ?n (\<lambda>r c. if int r + int c = 2 * l \<and> int c \<le> l + k then (- 1) ^ c else 0)"
  have up: "[- l .. k + 1] = [- l .. k] @ [k + 1]"
    using step.hyps by (simp add: upto_rec2)
  have ih: "fold (\<lambda>m dl. mset dl (nat (l - m)) (nat (l + m)) (minus_one_pow (l + m)))
              [- l .. k] (zeros2 ?n ?n) = ?M"
    using step by simp
  have rng: "nat (l - (k + 1)) < ?n" "nat (l + (k + 1)) < ?n"
    using step.hyps step.prems l by auto
  have pw: "minus_one_pow (l + (k + 1)) = (- 1) ^ nat (l + (k + 1))"
    using step.hyps l by (simp add: minus_one_pow_def even_nat_iff)
  show ?case
    unfolding up fold_snoc ih
  proof (intro mat_eqI[where n="?n"])
    fix r c assume rc: "r < ?n" "c < ?n"
    show "mget (mset ?M (nat (l - (k + 1))) (nat (l + (k + 1))) (minus_one_pow (l + (k + 1)))) r c
        = mget (mat_of ?n (\<lambda>r c. if int r + int c = 2 * l \<and> int c \<le> l + (k + 1) then (- 1) ^ c else 0)) r c"
      unfolding mget_mset_square[OF square_mat_of rng] pw using rc step.hyps step.prems l
      by (auto simp: nat_eq_iff)
  qed simp_all
qed

lemma antidiagonal_loop:
  fixes l :: int
  assumes l: "0 \<le> l"
  shows "fold (\<lambda>m dl. mset dl (nat (l - m)) (nat (l + m)) (minus_one_pow (l + m)))
              [- l .. l] (zeros2 (nat (2 * l + 1)) (nat (2 * l + 1)))
         = antidiagonal (nat l)"
proof -
  have n: "nat (2 * l + 1) = 2 * nat l + 1" using l by (simp add: nat_add_distrib nat_mult_distrib)
  have "fold (\<lambda>m dl. mset dl (nat (l - m)) (nat (l + m)) (minus_one_pow (l + m)))
              [- l .. l] (zeros2 (nat (2 * l + 1)) (nat (2 * l + 1)))
        = mat_of (nat (2 * l + 1))
             (\<lambda>r c. if int r + int c = 2 * l \<and> int c \<le> l + l then (- 1) ^ c else 0)"
    by (rule antidiagonal_loop_upto) (use l in auto)
  also have "\<dots> = antidiagonal (nat l)"
    unfolding antidiagonal_def n
    by (intro mat_eqI[where n="2 * nat l + 1"]) (use l in \<open>auto simp del: One_nat_def\<close>)
  finally show ?thesis .
qed

lemma turok_quarter_zero: "0 \<le> l \<Longrightarrow> turok_quarter 0 l = Inr (identity (nat (2 * l + 1)))"
  by (simp add: turok_quarter_def)

lemma turok_quarter_pi: "0 \<le> l \<Longrightarrow> turok_quarter pi l = Inr (antidiagonal (nat l))"
  by (simp add: turok_quarter_def antidiagonal_loop)

subsection \<open>compute\_full at the two poles\<close>

lemma set_slice_length: "a + length v \<le> length row \<Longrightarrow> length (set_slice row a v) = length row"
  by (simp add: set_slice_def)

lemma set_slice_nth:
  "a + length v \<le> length row \<Longrightarrow> c < length row \<Longrightarrow>
   set_slice row a v ! c = (if a \<le> c \<and> c < a + length v then v ! (c - a) else row ! c)"
  by (auto simp: set_slice_def nth_append)

lemma set_block_length:
  "a + length blk \<le> length dl \<Longrightarrow> length (set_block dl a blk) = length dl"
  by (simp add: set_block_def)

lemma set_block_nth:
  "a + length blk \<le> length dl \<Longrightarrow> r < length dl \<Longrightarrow>
   set_block dl a blk ! r
     = (if a \<le> r \<and> r < a + length blk then set_slice (dl ! r) a (blk ! (r - a)) else dl ! r)"
  by (auto simp: set_block_def nth_append)

lemma square_set_block:
  assumes "square N dl" "square n blk" "a + n \<le> N"
  shows "square N (set_block dl a blk)"
  using assms unfolding square_iff
  by (auto simp: set_block_length set_block_nth set_slice_length)

lemma mget_set_block:
  assumes "square N dl" "square n blk" "a + n \<le> N" "r < N" "c < N"
  shows "mget (set_block dl a blk) r c
         = (if a \<le> r \<and> r < a + n \<and> a \<le> c \<and> c < a + n then mget blk (r - a) (c - a)
            else mget dl r c)"
  using assms unfolding square_iff mget_def
  by (auto simp: set_block_nth set_slice_nth)

lemma compute_full_zero_closed:
  assumes "0 \<le> el" "el < L"
  shows "compute_full 0 el L
         = Inr (mat_of (nat (2 * L - 1))
                  (\<lambda>r c. if r = c \<and> L - 1 - el \<le> int r \<and> int r \<le> L - 1 + el then 1 else 0))"
proof -
  let ?N = "nat (2 * L - 1)" and ?n = "2 * nat el + 1" and ?a = "nat (L - 1 - el)"
  have n: "nat (2 * el + 1) = ?n" using assms by (simp add: nat_add_distrib nat_mult_distrib)
  have le: "?a + ?n \<le> ?N" using assms by auto
  have "compute_full 0 el L = Inr (set_block (zeros2 ?N ?N) ?a (identity ?n))"
    using assms by (simp add: compute_full_def turok_quarter_zero bind_def n turok_fill_identity del: One_nat_def)
  also have "set_block (zeros2 ?N ?N) ?a (identity ?n)
      = mat_of ?N (\<lambda>r c. if r = c \<and> L - 1 - el \<le> int r \<and> int r \<le> L - 1 + el then 1 else 0)"
  proof (intro mat_eqI[where n="?N"])
    fix r c assume rc: "r < ?N" "c < ?N"
    show "mget (set_block (zeros2 ?N ?N) ?a (identity ?n)) r c
        = mget (mat_of ?N (\<lambda>r c. if r = c \<and> L - 1 - el \<le> int r \<and> int r \<le> L - 1 + el then 1 else 0)) r c"
    proof (cases "?a \<le> r \<and> r < ?a + ?n \<and> ?a \<le> c \<and> c < ?a + ?n")
      case True
      then have in_blk: "r - ?a < ?n" "c - ?a < ?n" by auto
      have ia: "int ?a = L - 1 - el" "int (nat el) = el" using assms by auto
      have "(r - ?a = c - ?a) = (r = c)" using True by linarith
      moreover have "L - 1 - el \<le> int r \<and> int r \<le> L - 1 + el" using True ia by linarith
      ultimately show ?thesis
        unfolding mget_set_block[OF square_zeros2 square_identity le rc] mget_mat_of[OF rc]
          mget_identity[OF in_blk] using True by simp
    next
      case False
      moreover have ia: "int ?a = L - 1 - el" "int (nat el) = el" using assms by auto
      ultimately have nb: "\<not> (r = c \<and> L - 1 - el \<le> int r \<and> int r \<le> L - 1 + el)" by linarith
      show ?thesis
        unfolding mget_set_block[OF square_zeros2 square_identity le rc] mget_mat_of[OF rc]
          if_not_P[OF False] if_not_P[OF nb] by (rule mget_zeros2[OF rc])
    qed
  qed (simp_all add: square_set_block[OF _ _ le])
  finally show ?thesis .
qed

lemma compute_full_pi_closed:
  assumes "0 \<le> el" "el < L"
  shows "compute_full pi el L
         = Inr (mat_of (nat (2 * L - 1))
                  (\<lambda>r c. let m = int c - (L - 1)
                         in if - el \<le> m \<and> m \<le> el \<and> int r = L - 1 - m then minus_one_pow (el + m)
                            else 0))"
proof -
  let ?N = "nat (2 * L - 1)" and ?n = "2 * nat el + 1" and ?a = "nat (L - 1 - el)"
  let ?f = "\<lambda>r c. let m = int c - (L - 1)
                 in if - el \<le> m \<and> m \<le> el \<and> int r = L - 1 - m then minus_one_pow (el + m) else 0"
  have le: "?a + ?n \<le> ?N" using assms by auto
  have "compute_full pi el L = Inr (set_block (zeros2 ?N ?N) ?a (antidiagonal (nat el)))"
    using assms by (simp add: compute_full_def turok_quarter_pi bind_def turok_fill_antidiagonal)
  also have "set_block (zeros2 ?N ?N) ?a (antidiagonal (nat el)) = mat_of ?N ?f"
  proof (intro mat_eqI[where n="?N"])
    fix r c assume rc: "r < ?N" "c < ?N"
    show "mget (set_block (zeros2 ?N ?N) ?a (antidiagonal (nat el))) r c = mget (mat_of ?N ?f) r c"
    proof (cases "?a \<le> r \<and> r < ?a + ?n \<and> ?a \<le> c \<and> c < ?a + ?n")
      case True
      then have in_blk: "r - ?a < ?n" "c - ?a < ?n" by auto
      have ia: "int ?a = L - 1 - el" "int (nat el) = el" using assms by auto
      have m: "- el \<le> int c - (L - 1)" "int c - (L - 1) \<le> el" using True ia by linarith+
      have e: "((r - ?a) + (c - ?a) = 2 * nat el) = (int r = L - 1 - (int c - (L - 1)))"
        using True ia by linarith
      have "int (c - ?a) = el + (int c - (L - 1))" using True ia by linarith
      then have pw: "minus_one_pow (el + (int c - (L - 1))) = (- 1) ^ (c - ?a)"
        by (metis even_of_nat minus_one_pow_def minus_one_power_iff)
      show ?thesis
        unfolding mget_set_block[OF square_zeros2 square_antidiagonal le rc] mget_mat_of[OF rc]
          mget_antidiagonal[OF in_blk] Let_def e pw using True m by simp
    next
      case False
      moreover have ia: "int ?a = L - 1 - el" "int (nat el) = el" using assms by auto
      ultimately have nb: "\<not> (- el \<le> int c - (L - 1) \<and> int c - (L - 1) \<le> el \<and> int r = L - 1 - (int c - (L - 1)))"
        by linarith
      show ?thesis
        unfolding mget_set_block[OF square_zeros2 square_antidiagonal le rc] mget_mat_of[OF rc] Let_def
          if_not_P[OF False] if_not_P[OF nb] by (rule mget_zeros2[OF rc])
    qed
  qed (rule square_set_block[OF square_zeros2 square_antidiagonal le] square_mat_of)+
  finally show ?thesis .
qed


text \<open>
  C6. For every \<open>0 \<le> el < L\<close>, \<^verbatim>\<open>compute_full\<close> at \<open>beta = 0\<close> returns the
  \<open>(2L-1) \<times> (2L-1)\<close> matrix whose central \<open>(2 el + 1) \<times> (2 el + 1)\<close> block (rows and
  columns \<open>L-1-el .. L-1+el\<close>) is the identity and whose other entries are zero.
\<close>

theorem compute_full_beta_zero_identity:
  assumes "0 \<le> el" "el < L"
  shows "compute_full 0 el L
         = Inr (mat_of (nat (2 * L - 1))
                  (\<lambda>r c. if r = c \<and> L - 1 - el \<le> int r \<and> int r \<le> L - 1 + el then 1 else 0))"
  using assms by (rule compute_full_zero_closed)

theorem compute_full_beta_zero_identity_witness:
  "(0 :: int) \<le> 1 \<and> (1 :: int) < 3 \<and>
   compute_full 0 1 3
     = Inr [[0, 0, 0, 0, 0],
            [0, 1, 0, 0, 0],
            [0, 0, 1, 0, 0],
            [0, 0, 0, 1, 0],
            [0, 0, 0, 0, 0]]"
  using compute_full_beta_zero_identity[of 1 3] by (simp add: mat_of_def eval_nat_numeral)

text \<open>
  C7. For every \<open>0 \<le> el < L\<close>, \<^verbatim>\<open>compute_full\<close> at \<open>beta = pi\<close> returns the matrix with
  entry \<open>(-1)^(el+m)\<close> at position \<open>(el-m, el+m)\<close> of the populated block, that is at row
  \<open>L-1-m\<close> and column \<open>L-1+m\<close>, for every \<open>-el \<le> m \<le> el\<close>, and zero everywhere else.
\<close>

theorem compute_full_beta_pi_antidiagonal:
  assumes "0 \<le> el" "el < L"
  shows "compute_full pi el L
         = Inr (mat_of (nat (2 * L - 1))
                  (\<lambda>r c. let m = int c - (L - 1)
                         in if - el \<le> m \<and> m \<le> el \<and> int r = L - 1 - m then minus_one_pow (el + m)
                            else 0))"
  using assms by (rule compute_full_pi_closed)

theorem compute_full_beta_pi_antidiagonal_witness:
  "(0 :: int) \<le> 1 \<and> (1 :: int) < 3 \<and>
   compute_full pi 1 3
     = Inr [[0, 0, 0, 0, 0],
            [0, 0, 0, 1, 0],
            [0, 0, - 1, 0, 0],
            [0, 1, 0, 0, 0],
            [0, 0, 0, 0, 0]]"
  using compute_full_beta_pi_antidiagonal[of 1 3]
  by (simp add: mat_of_def eval_nat_numeral minus_one_pow_def)

subsection \<open>Shapes\<close>















lemma py_index_in_range: "0 \<le> i \<Longrightarrow> i < int n \<Longrightarrow> py_index n i = Inr (nat i)"
  by (simp add: py_index_def)



subsection \<open>Argument validation\<close>


text \<open>
  C9. The \<^verbatim>\<open>UnsupportedSampling\<close> failures are the result of argument validation alone:
  \<^verbatim>\<open>forward_direct\<close> with a scheme whose lower-case name is not \<^verbatim>\<open>"dh"\<close> returns the error
  whatever its other arguments and collaborators are; \<^verbatim>\<open>compute_spin_slice\<close> with
  \<^verbatim>\<open>accelerate=True\<close> returns an error whatever its other arguments are, and that error is
  \<^verbatim>\<open>UnsupportedSampling\<close> unless the earlier check \<^verbatim>\<open>el < spin\<close> has already failed.
\<close>

theorem unsupported_sampling_fails_fast:
  "(lower sampling \<noteq> ''dh'' \<longrightarrow> forward_direct S f L spin sampling = Inl UnsupportedSampling)
   \<and> isl (compute_spin_slice beta el L' spin' True)
   \<and> (spin' \<le> el \<longrightarrow> compute_spin_slice beta el L' spin' True = Inl UnsupportedSampling)"
  by (simp add: forward_direct_def compute_spin_slice_def)

theorem unsupported_sampling_fails_fast_witness:
  "lower ''mw'' \<noteq> ''dh''
   \<and> forward_direct \<lparr>ntheta = \<lambda>L s. Inr 0, nphi_equiang = \<lambda>L s. Inr 0,
                       thetas = \<lambda>L s. Inr [], phis_equiang = \<lambda>L s. Inr [],
                       weight_dh = \<lambda>t L. Inr 0, risbo_compute_full = \<lambda>dl t L el. Inr dl\<rparr>
        [] 3 0 ''mw'' = Inl UnsupportedSampling
   \<and> isl (compute_spin_slice 0 1 3 0 True)
   \<and> (0 :: int) \<le> 1
   \<and> compute_spin_slice 0 1 3 0 True = Inl UnsupportedSampling"
  using unsupported_sampling_fails_fast[of "''mw''"
      "\<lparr>ntheta = \<lambda>L s. Inr 0, nphi_equiang = \<lambda>L s. Inr 0,
        thetas = \<lambda>L s. Inr [], phis_equiang = \<lambda>L s. Inr [],
        weight_dh = \<lambda>t L. Inr 0, risbo_compute_full = \<lambda>dl t L el. Inr dl\<rparr>" "[]" 3 0 0 1 3 0]
  by (simp add: lower_def lower_char_def)

text \<open>
  C5. The claim has \<^verbatim>\<open>compute_spin_slice\<close> fail with \<^verbatim>\<open>SpinExceedsDegree\<close> at
  \<open>el = \<bar>spin\<bar> - 1\<close>. The source tests \<^verbatim>\<open>el < spin\<close>, without the absolute value that
  \<^verbatim>\<open>turok_quarter_spin\<close> and the guards of the transforms take, so a negative spin is never
  rejected: at \<open>beta = pi\<close>, \<open>el = 1\<close>, \<open>L = 3\<close>, \<open>spin = -2\<close>, where \<open>el = \<bar>spin\<bar> - 1\<close>, the
  call returns the vector \<open>[0, 0, 0, -1, 0]\<close>.
\<close>

theorem compute_spin_slice_accepts_degree_below_negative_spin:
  "compute_spin_slice pi (\<bar>- 2\<bar> - 1) 3 (- 2) False = Inr [0, 0, 0, - 1, 0]"
  by (simp add: compute_spin_slice_def turok_quarter_spin_def bind_def py_index_def zeros_def
        minus_one_pow_def set_slice_def eval_nat_numeral)

subsection \<open>Loops of assignments\<close>

lemma mget_mset_other: "(r, c) \<noteq> (a, b) \<Longrightarrow> mget (mset dl a b v) r c = mget dl r c"
  by (cases "a < length dl") (auto simp: mget_def mset_def nth_list_update list_update_beyond not_less)

lemma rect_iff: "rect R C dl \<longleftrightarrow> length dl = R \<and> (\<forall>r < R. length (dl ! r) = C)"
  by (auto simp: rect_def list_all_length)

lemma rect_mset [simp]: "rect R C (mset dl i j v) = rect R C dl"
  by (simp add: rect_iff)

lemma square_rect: "square n dl = rect n n dl"
  by (simp add: square_def rect_def)

lemma mget_mset_rect:
  "rect R C dl \<Longrightarrow> a < R \<Longrightarrow> b < C \<Longrightarrow>
   mget (mset dl a b v) r c = (if r = a \<and> c = b then v else mget dl r c)"
  by (rule mget_mset) (simp_all add: rect_iff)

lemma rect_writes [simp]: "rect R C (writes tgt val xs dl) = rect R C dl"
  unfolding writes_def by (induction xs arbitrary: dl) simp_all

lemma writes_snoc: "writes tgt val (xs @ [x]) dl
    = mset (writes tgt val xs dl) (fst (tgt x)) (snd (tgt x)) (val x (writes tgt val xs dl))"
  by (simp add: writes_def)

lemma writes_other:
  "(r, c) \<notin> tgt ` set xs \<Longrightarrow> mget (writes tgt val xs dl) r c = mget dl r c"
proof (induction xs rule: rev_induct)
  case Nil show ?case by (simp add: writes_def)
next
  case (snoc x xs)
  then have "(r, c) \<noteq> (fst (tgt x), snd (tgt x))" "(r, c) \<notin> tgt ` set xs" by auto
  then show ?case using snoc.IH by (simp add: writes_snoc mget_mset_other)
qed

lemma writes_target:
  fixes val :: "'x \<Rightarrow> 'a list list \<Rightarrow> 'a"
  assumes "rect R C dl"
    and "\<And>x. x \<in> set xs \<Longrightarrow> fst (tgt x) < R \<and> snd (tgt x) < C"
    and "inj_on tgt (set xs)"
    and "\<And>x d d'. x \<in> set xs \<Longrightarrow> (\<And>r c. (r, c) \<notin> tgt ` set xs \<Longrightarrow> mget d r c = mget d' r c)
            \<Longrightarrow> val x d = val x d'"
    and "x \<in> set xs"
  shows "mget (writes tgt val xs dl) (fst (tgt x)) (snd (tgt x)) = val x dl"
  using assms(2-)
proof (induction xs rule: rev_induct)
  case Nil then show ?case by simp
next
  case (snoc y xs)
  let ?d = "writes tgt val xs dl"
  have rng: "fst (tgt y) < R" "snd (tgt y) < C" using snoc.prems(1)[of y] by auto
  have rd: "rect R C ?d" using assms(1) by simp
  have dep: "val z d = val z d'"
    if "z \<in> set (xs @ [y])" "\<And>r c. (r, c) \<notin> tgt ` set (xs @ [y]) \<Longrightarrow> mget d r c = mget d' r c"
    for z and d d' :: "'a list list" using snoc.prems(3)[OF that] .
  show ?case
  proof (cases "tgt x = tgt y")
    case True
    then have xy: "x = y" using snoc.prems(2,4) by (auto simp: inj_on_def)
    have "val y ?d = val y dl"
    proof (rule dep)
      show "y \<in> set (xs @ [y])" by simp
      fix r c assume "(r, c) \<notin> tgt ` set (xs @ [y])"
      then have "(r, c) \<notin> tgt ` set xs" by auto
      then show "mget ?d r c = mget dl r c" by (rule writes_other)
    qed
    then show ?thesis unfolding writes_snoc xy mget_mset_rect[OF rd rng] by simp
  next
    case False
    then have xin: "x \<in> set xs" using snoc.prems(4) by auto
    have ne: "(fst (tgt x), snd (tgt x)) \<noteq> (fst (tgt y), snd (tgt y))"
      using False by (simp add: prod_eq_iff)
    have ih: "mget ?d (fst (tgt x)) (snd (tgt x)) = val x dl"
    proof (rule snoc.IH[OF _ _ _ xin])
      show "fst (tgt z) < R \<and> snd (tgt z) < C" if "z \<in> set xs" for z
        using snoc.prems(1)[of z] that by simp
      show "inj_on tgt (set xs)" using snoc.prems(2) by (auto simp: inj_on_def)
      fix z and d d' :: "'a list list" assume z: "z \<in> set xs"
        and eq: "\<And>r c. (r, c) \<notin> tgt ` set xs \<Longrightarrow> mget d r c = mget d' r c"
      show "val z d = val z d'"
      proof (rule dep)
        show "z \<in> set (xs @ [y])" using z by simp
        fix r c assume "(r, c) \<notin> tgt ` set (xs @ [y])"
        then have "(r, c) \<notin> tgt ` set xs" by auto
        then show "mget d r c = mget d' r c" by (rule eq)
      qed
    qed
    show ?thesis unfolding writes_snoc mget_mset_other[OF ne] by (rule ih)
  qed
qed

lemma set_pairs [simp]: "(i, j) \<in> set (pairs is js) \<longleftrightarrow> i \<in> set is \<and> j \<in> set (js i)"
  by (auto simp: pairs_def)

lemma fold_nested: "fold (\<lambda>i. fold (\<lambda>j. f i j) (js i)) is s = fold (\<lambda>(i, j). f i j) (pairs is js) s"
  unfolding pairs_def
proof (induction "is" arbitrary: s)
  case Nil show ?case by simp
next
  case (Cons i "is")
  have "fold (\<lambda>(i, j). f i j) (map (Pair i) (js i)) s = fold (f i) (js i) s" for s
    by (induction "js i" arbitrary: s) (simp_all add: fold_map comp_def)
  then show ?case using Cons by (simp add: fold_map comp_def)
qed

lemma foldM_pure:
  "P s \<Longrightarrow> (\<And>x s. x \<in> set xs \<Longrightarrow> P s \<Longrightarrow> f x s = Inr (g x s) \<and> P (g x s))
   \<Longrightarrow> foldM f xs s = Inr (fold g xs s) \<and> P (fold g xs s)"
  by (induction xs arbitrary: s) auto

subsection \<open>The coefficient index map\<close>

lemma elm2ind_range:
  assumes "0 \<le> el" "el < L" "- el \<le> m" "m \<le> el"
  shows "0 \<le> elm2ind el m" "elm2ind el m < L * L"
proof -
  have "0 \<le> el * el" by simp
  then show "0 \<le> elm2ind el m" unfolding elm2ind_def using assms by linarith
  have "(el + 1) * (el + 1) \<le> L * L" using assms by (intro mult_mono) auto
  then show "elm2ind el m < L * L" using assms by (simp add: elm2ind_def algebra_simps)
qed

lemma elm2ind_less:
  assumes "0 \<le> el" "el < el'" "m \<le> el" "- el' \<le> m'"
  shows "elm2ind el m < elm2ind el' m'"
proof -
  have "(el + 1) * (el + 1) \<le> el' * el'" using assms by (intro mult_mono) auto
  then show ?thesis using assms by (simp add: elm2ind_def algebra_simps)
qed

lemma elm2ind_inj:
  assumes "0 \<le> el" "- el \<le> m" "m \<le> el" "0 \<le> el'" "- el' \<le> m'" "m' \<le> el'"
    and "elm2ind el m = elm2ind el' m'"
  shows "el = el' \<and> m = m'"
proof -
  have "\<not> el < el'" using elm2ind_less[of el el' m m'] assms by auto
  moreover have "\<not> el' < el" using elm2ind_less[of el' el m' m] assms by auto
  ultimately have "el = el'" by simp
  then show ?thesis using assms(7) by (simp add: elm2ind_def)
qed

lemma elm2ind_surj:
  assumes "0 \<le> k" "k < L * L" "0 \<le> L"
  shows "\<exists>el m. 0 \<le> el \<and> el < L \<and> - el \<le> m \<and> m \<le> el \<and> elm2ind el m = k"
  using assms(3,1,2)
proof (induction L rule: int_ge_induct)
  case base then show ?case by simp
next
  case (step L)
  show ?case
  proof (cases "k < L * L")
    case True
    then obtain el m where "0 \<le> el" "el < L" "- el \<le> m" "m \<le> el" "elm2ind el m = k"
      using step by blast
    then show ?thesis by (intro exI[of _ el] exI[of _ m]) auto
  next
    case False
    then have "L * L \<le> k" "k \<le> L * L + 2 * L" using step.prems by (auto simp: algebra_simps)
    then show ?thesis using step.hyps
      by (intro exI[of _ L] exI[of _ "k - L * L - L"]) (auto simp: elm2ind_def)
  qed
qed

subsection \<open>The layout conversions\<close>

lemma rect_zeros2 [simp]: "rect R C (zeros2 R C)"
  by (simp add: rect_iff zeros2_def)

lemma vget_py_in_range: "0 \<le> i \<Longrightarrow> i < int (length xs) \<Longrightarrow> vget_py xs i = Inr (xs ! nat i)"
  by (simp add: vget_py_def py_index_in_range bind_def)

lemma vset_py_in_range:
  "0 \<le> i \<Longrightarrow> i < int (length xs) \<Longrightarrow> vset_py xs i v = Inr (xs[nat i := v])"
  by (simp add: vset_py_def py_index_in_range bind_def)

lemma mget_py_in_range:
  "rect R C dl \<Longrightarrow> 0 \<le> i \<Longrightarrow> i < int R \<Longrightarrow> 0 \<le> j \<Longrightarrow> j < int C \<Longrightarrow>
   mget_py dl i j = Inr (mget dl (nat i) (nat j))"
  by (simp add: mget_py_def py_index_in_range bind_def rect_iff mget_def)

lemma mset_py_in_range:
  "rect R C dl \<Longrightarrow> 0 \<le> i \<Longrightarrow> i < int R \<Longrightarrow> 0 \<le> j \<Longrightarrow> j < int C \<Longrightarrow>
   mset_py dl i j v = Inr (mset dl (nat i) (nat j) v)"
  by (simp add: mset_py_def py_index_in_range bind_def rect_iff)

lemma in_triangle: "(el, m) \<in> set (triangle L) \<longleftrightarrow> 0 \<le> el \<and> el < L \<and> - el \<le> m \<and> m \<le> el"
  by (auto simp: triangle_def)

lemma flm_1d_to_2d_pure:
  assumes L: "1 \<le> L" and len: "length x = nat (L * L)"
  shows "flm_1d_to_2d (Array1 x) L
         = Inr (writes (table_target L) (\<lambda>(el, m) T. x ! nat (elm2ind el m)) (triangle L)
                  (zeros2 (nat L) (nat (2 * L - 1))))"
proof -
  let ?R = "nat L" and ?C = "nat (2 * L - 1)"
  let ?f = "\<lambda>el m flm_2d. bind (vget_py x (elm2ind el m)) (\<lambda>v. mset_py flm_2d el (L - 1 + m) v)"
  let ?g = "\<lambda>el m T. mset T (nat el) (nat (L - 1 + m)) (x ! nat (elm2ind el m))"
  have step: "?f el m T = Inr (?g el m T) \<and> rect ?R ?C (?g el m T)"
    if "el \<in> set [0 .. L - 1]" "m \<in> set [- el .. el]" "rect ?R ?C T" for el m T
  proof -
    have r: "0 \<le> el" "el < L" "- el \<le> m" "m \<le> el" using that by auto
    have "vget_py x (elm2ind el m) = Inr (x ! nat (elm2ind el m))"
      using elm2ind_range[OF r] L len by (intro vget_py_in_range) auto
    moreover have "mset_py T el (L - 1 + m) v = Inr (mset T (nat el) (nat (L - 1 + m)) v)" for v
      using r L by (intro mset_py_in_range[OF that(3)]) auto
    ultimately show ?thesis using that(3) by (simp add: bind_def)
  qed
  have inner: "foldM (?f el) [- el .. el] T = Inr (fold (?g el) [- el .. el] T)
               \<and> rect ?R ?C (fold (?g el) [- el .. el] T)"
    if "el \<in> set [0 .. L - 1]" "rect ?R ?C T" for el T
    by (rule foldM_pure[where P="rect ?R ?C"]) (use that step in auto)
  have outer: "foldM (\<lambda>el. foldM (?f el) [- el .. el]) [0 .. L - 1] (zeros2 ?R ?C)
        = Inr (fold (\<lambda>el. fold (?g el) [- el .. el]) [0 .. L - 1] (zeros2 ?R ?C))
          \<and> rect ?R ?C (fold (\<lambda>el. fold (?g el) [- el .. el]) [0 .. L - 1] (zeros2 ?R ?C))"
    by (rule foldM_pure[where P="rect ?R ?C"]) (use inner in auto)
  have w: "fold (\<lambda>el. fold (?g el) [- el .. el]) [0 .. L - 1] (zeros2 ?R ?C)
         = writes (table_target L) (\<lambda>(el, m) T. x ! nat (elm2ind el m)) (triangle L) (zeros2 ?R ?C)"
    unfolding fold_nested writes_def triangle_def table_target_def
    by (rule arg_cong[where f="\<lambda>f. fold f _ _"]) (auto simp: fun_eq_iff)
  have c: "\<not> (L < 0 \<or> 2 * L - 1 < 0)" using L by auto
  show ?thesis
    unfolding flm_1d_to_2d_def if_not_P[OF c] Let_def ndarray.case using outer w by simp
qed

lemma length_vwrites [simp]: "length (vwrites key val xs v) = length v"
  unfolding vwrites_def by (induction xs arbitrary: v) simp_all

lemma vwrites_other: "i \<notin> key ` set xs \<Longrightarrow> vwrites key val xs v ! i = v ! i"
  unfolding vwrites_def by (induction xs arbitrary: v) auto

lemma vwrites_target:
  assumes "\<And>x. x \<in> set xs \<Longrightarrow> key x < length v" "inj_on key (set xs)" "x \<in> set xs"
  shows "vwrites key val xs v ! key x = val x"
  using assms
proof (induction xs rule: rev_induct)
  case Nil then show ?case by simp
next
  case (snoc y xs)
  have s: "vwrites key val (xs @ [y]) v = (vwrites key val xs v)[key y := val y]"
    by (simp add: vwrites_def)
  show ?case
  proof (cases "key x = key y")
    case True
    then have "x = y" using snoc.prems(2,3) by (auto simp: inj_on_def)
    then show ?thesis unfolding s using snoc.prems(1)[of y] by simp
  next
    case False
    then have "x \<in> set xs" using snoc.prems(3) by auto
    moreover have "inj_on key (set xs)" using snoc.prems(2) by (auto simp: inj_on_def)
    ultimately have "vwrites key val xs v ! key x = val x"
      using snoc.IH snoc.prems(1) by auto
    then show ?thesis unfolding s using False by simp
  qed
qed

lemma flm_2d_to_1d_pure:
  assumes L: "1 \<le> L" and y: "rect (nat L) (nat (2 * L - 1)) y"
  shows "flm_2d_to_1d (Array2 y) L
         = Inr (vwrites (\<lambda>(el, m). nat (elm2ind el m))
                  (\<lambda>(el, m). mget y (nat el) (nat (L - 1 + m))) (triangle L)
                  (zeros (nat (L * L))))"
proof -
  let ?n = "nat (L * L)"
  let ?f = "\<lambda>el m flm_1d. bind (mget_py y el (L - 1 + m)) (\<lambda>v. vset_py flm_1d (elm2ind el m) v)"
  let ?g = "\<lambda>el m (v :: complex list). v[nat (elm2ind el m) := mget y (nat el) (nat (L - 1 + m))]"
  have step: "?f el m v = Inr (?g el m v) \<and> length (?g el m v) = ?n"
    if "el \<in> set [0 .. L - 1]" "m \<in> set [- el .. el]" "length v = ?n" for el m v
  proof -
    have r: "0 \<le> el" "el < L" "- el \<le> m" "m \<le> el" using that by auto
    have "mget_py y el (L - 1 + m) = Inr (mget y (nat el) (nat (L - 1 + m)))"
      using r L by (intro mget_py_in_range[OF y]) auto
    moreover have "vset_py v (elm2ind el m) a = Inr (v[nat (elm2ind el m) := a])" for a
      using elm2ind_range[OF r] that(3) by (intro vset_py_in_range) auto
    ultimately show ?thesis using that(3) by (simp add: bind_def)
  qed
  have inner: "foldM (?f el) [- el .. el] v = Inr (fold (?g el) [- el .. el] v)
               \<and> length (fold (?g el) [- el .. el] v) = ?n"
    if "el \<in> set [0 .. L - 1]" "length v = ?n" for el v
    by (rule foldM_pure[where P="\<lambda>v. length v = ?n"]) (use that step in auto)
  have outer: "foldM (\<lambda>el. foldM (?f el) [- el .. el]) [0 .. L - 1] (zeros ?n)
        = Inr (fold (\<lambda>el. fold (?g el) [- el .. el]) [0 .. L - 1] (zeros ?n))
          \<and> length (fold (\<lambda>el. fold (?g el) [- el .. el]) [0 .. L - 1] (zeros ?n)) = ?n"
    by (rule foldM_pure[where P="\<lambda>v. length v = ?n"]) (use inner in \<open>auto simp: zeros_def\<close>)
  have w: "fold (\<lambda>el. fold (?g el) [- el .. el]) [0 .. L - 1] (zeros ?n)
         = vwrites (\<lambda>(el, m). nat (elm2ind el m))
                  (\<lambda>(el, m). mget y (nat el) (nat (L - 1 + m))) (triangle L) (zeros ?n)"
    unfolding fold_nested vwrites_def triangle_def
    by (rule arg_cong[where f="\<lambda>f. fold f _ _"]) (auto simp: fun_eq_iff)
  show ?thesis
    unfolding flm_2d_to_1d_def Let_def ndarray.case ncoeff_def using outer w by simp
qed

lemma rect_eqI:
  assumes "rect R C A" "rect R C B" "\<And>r c. r < R \<Longrightarrow> c < C \<Longrightarrow> mget A r c = mget B r c"
  shows "A = B"
proof (rule nth_equalityI)
  show "length A = length B" using assms by (simp add: rect_iff)
next
  fix r assume "r < length A"
  then have r: "r < R" using assms(1) by (simp add: rect_iff)
  show "A ! r = B ! r"
  proof (rule nth_equalityI)
    show "length (A ! r) = length (B ! r)" using assms r by (simp add: rect_iff)
  next
    fix c assume "c < length (A ! r)"
    then have "c < C" using assms(1) r by (simp add: rect_iff)
    then show "A ! r ! c = B ! r ! c" using assms(3)[OF r] by (simp add: mget_def)
  qed
qed

lemma inj_on_table_target: "inj_on (table_target L) (set (triangle L))"
  by (auto simp: inj_on_def table_target_def in_triangle)

lemma inj_on_elm2ind: "inj_on (\<lambda>(el, m). nat (elm2ind el m)) (set (triangle L))"
proof (rule inj_onI, clarify)
  fix el m el' m'
  assume a: "(el, m) \<in> set (triangle L)" "(el', m') \<in> set (triangle L)"
    and e: "nat (elm2ind el m) = nat (elm2ind el' m')"
  have r: "0 \<le> el" "el < L" "- el \<le> m" "m \<le> el" "0 \<le> el'" "el' < L" "- el' \<le> m'" "m' \<le> el'"
    using a by (auto simp: in_triangle)
  have "elm2ind el m = elm2ind el' m'"
    using e elm2ind_range(1)[OF r(1-4)] elm2ind_range(1)[OF r(5-8)] by simp
  then show "el = el' \<and> m = m'"
    using elm2ind_inj[OF r(1,3,4) r(5,7,8)] by simp
qed

lemma table_of_vector:
  fixes x :: "complex list"
  assumes L: "1 \<le> L"
  defines "T \<equiv> writes (table_target L) (\<lambda>(el, m) T. x ! nat (elm2ind el m)) (triangle L)
                  (zeros2 (nat L) (nat (2 * L - 1)))"
  shows "rect (nat L) (nat (2 * L - 1)) T"
    and "\<And>el m. (el, m) \<in> set (triangle L) \<Longrightarrow>
           mget T (nat el) (nat (L - 1 + m)) = (x ! nat (elm2ind el m) :: complex)"
    and "\<And>r c. r < nat L \<Longrightarrow> c < nat (2 * L - 1) \<Longrightarrow> \<not> \<bar>int c - (L - 1)\<bar> \<le> int r \<Longrightarrow>
           mget T r c = 0"
proof -
  show "rect (nat L) (nat (2 * L - 1)) T" unfolding T_def by simp
next
  fix el m assume a: "(el, m) \<in> set (triangle L)"
  have rng: "fst (table_target L p) < nat L \<and> snd (table_target L p) < nat (2 * L - 1)"
    if "p \<in> set (triangle L)" for p
  proof -
    obtain el m where p: "p = (el, m)" by (cases p)
    show ?thesis using that L unfolding p in_triangle table_target_def by auto
  qed
  have "mget T (fst (table_target L (el, m))) (snd (table_target L (el, m)))
        = (\<lambda>(el, m) (T :: complex list list). x ! nat (elm2ind el m)) (el, m)
            (zeros2 (nat L) (nat (2 * L - 1)))"
    unfolding T_def
    by (rule writes_target[where R="nat L" and C="nat (2 * L - 1)"])
       (use rng inj_on_table_target a in auto)
  then show "mget T (nat el) (nat (L - 1 + m)) = x ! nat (elm2ind el m)"
    by (simp add: table_target_def)
next
  fix r c assume a: "r < nat L" "c < nat (2 * L - 1)" "\<not> \<bar>int c - (L - 1)\<bar> \<le> int r"
  have "(r, c) \<notin> table_target L ` set (triangle L)"
  proof
    assume "(r, c) \<in> table_target L ` set (triangle L)"
    then obtain el m where "(el, m) \<in> set (triangle L)" "r = nat el" "c = nat (L - 1 + m)"
      by (auto simp: table_target_def)
    then show False using a L by (auto simp: in_triangle)
  qed
  then have "mget T r c = mget (zeros2 (nat L) (nat (2 * L - 1))) r c"
    unfolding T_def by (rule writes_other)
  then show "mget T r c = 0" using a by simp
qed

lemma vector_of_table:
  fixes y :: "complex list list"
  assumes L: "1 \<le> L"
  defines "v \<equiv> vwrites (\<lambda>(el, m). nat (elm2ind el m))
                  (\<lambda>(el, m). mget y (nat el) (nat (L - 1 + m))) (triangle L)
                  (zeros (nat (L * L)))"
  shows "length v = nat (L * L)"
    and "\<And>el m. (el, m) \<in> set (triangle L) \<Longrightarrow>
           v ! nat (elm2ind el m) = (mget y (nat el) (nat (L - 1 + m)) :: complex)"
proof -
  show "length v = nat (L * L)" unfolding v_def by (simp add: zeros_def)
next
  fix el m assume a: "(el, m) \<in> set (triangle L)"
  have "v ! (case (el, m) of (el, m) \<Rightarrow> nat (elm2ind el m))
        = (case (el, m) of (el, m) \<Rightarrow> mget y (nat el) (nat (L - 1 + m)))"
    unfolding v_def
  proof (rule vwrites_target[OF _ inj_on_elm2ind a])
    fix p assume pin: "p \<in> set (triangle L)"
    obtain el m where p: "p = (el, m)" by (cases p)
    have r: "0 \<le> el" "el < L" "- el \<le> m" "m \<le> el"
      using pin unfolding p in_triangle by auto
    show "(case p of (el, m) \<Rightarrow> nat (elm2ind el m)) < length (zeros (nat (L * L)) :: complex list)"
      using elm2ind_range[OF r] by (simp add: p zeros_def)
  qed
  then show "v ! nat (elm2ind el m) = mget y (nat el) (nat (L - 1 + m))" by simp
qed

lemma zero_outside_triangleD:
  assumes "zero_outside_triangle L y" "r < nat L" "c < nat (2 * L - 1)"
    "\<not> \<bar>int c - (L - 1)\<bar> \<le> int r"
  shows "mget y r c = 0"
proof -
  have "r \<in> set [0 ..< nat L]" using assms(2) by simp
  then have "list_all (\<lambda>c. \<bar>int c - (L - 1)\<bar> \<le> int r \<or> mget y r c = 0) [0 ..< nat (2 * L - 1)]"
    using assms(1) unfolding zero_outside_triangle_def list_all_iff by blast
  moreover have "c \<in> set [0 ..< nat (2 * L - 1)]" using assms(3) by simp
  ultimately have "\<bar>int c - (L - 1)\<bar> \<le> int r \<or> mget y r c = 0"
    unfolding list_all_iff by blast
  then show ?thesis using assms(4) by simp
qed

lemma flm_1d_roundtrip:
  fixes x :: "complex list"
  assumes L: "1 \<le> L" and len: "length x = nat (ncoeff L)"
  shows "bind (flm_1d_to_2d (Array1 x) L) (\<lambda>t. flm_2d_to_1d (Array2 t) L) = Inr x"
proof -
  define T where "T = writes (table_target L) (\<lambda>(el, m) T. x ! nat (elm2ind el m)) (triangle L)
                  (zeros2 (nat L) (nat (2 * L - 1)))"
  define v where "v = vwrites (\<lambda>(el, m). nat (elm2ind el m))
                  (\<lambda>(el, m). mget T (nat el) (nat (L - 1 + m))) (triangle L)
                  (zeros (nat (L * L)))"
  note T = table_of_vector[OF L, where x=x, folded T_def]
  note v = vector_of_table[OF L, where y=T, folded v_def]
  have len': "length x = nat (L * L)" using len by (simp add: ncoeff_def)
  have 1: "flm_1d_to_2d (Array1 x) L = Inr T"
    unfolding T_def by (rule flm_1d_to_2d_pure[OF L len'])
  have 2: "flm_2d_to_1d (Array2 T) L = Inr v"
    unfolding v_def by (rule flm_2d_to_1d_pure[OF L T(1)])
  have "v = x"
  proof (rule nth_equalityI)
    show "length v = length x" using v(1) len' by simp
  next
    fix k assume "k < length v"
    then have k: "0 \<le> int k" "int k < L * L" using v(1) by auto
    obtain el m where r: "0 \<le> el" "el < L" "- el \<le> m" "m \<le> el" and e: "elm2ind el m = int k"
      using elm2ind_surj[OF k] L by auto
    have tri: "(el, m) \<in> set (triangle L)" using r by (simp add: in_triangle)
    have "v ! nat (elm2ind el m) = x ! nat (elm2ind el m)"
      using v(2)[OF tri] T(2)[OF tri] by simp
    then show "v ! k = x ! k" unfolding e by simp
  qed
  then show ?thesis unfolding 1 bind_def using 2 by simp
qed

lemma flm_2d_roundtrip:
  fixes y :: "complex list list"
  assumes L: "1 \<le> L" and y: "rect (nat L) (nat (2 * L - 1)) y" and z: "zero_outside_triangle L y"
  shows "bind (flm_2d_to_1d (Array2 y) L) (\<lambda>v. flm_1d_to_2d (Array1 v) L) = Inr y"
proof -
  define v where "v = vwrites (\<lambda>(el, m). nat (elm2ind el m))
                  (\<lambda>(el, m). mget y (nat el) (nat (L - 1 + m))) (triangle L)
                  (zeros (nat (L * L)))"
  define T where "T = writes (table_target L) (\<lambda>(el, m) T. v ! nat (elm2ind el m)) (triangle L)
                  (zeros2 (nat L) (nat (2 * L - 1)))"
  note v = vector_of_table[OF L, where y=y, folded v_def]
  note T = table_of_vector[OF L, where x=v, folded T_def]
  have 1: "flm_2d_to_1d (Array2 y) L = Inr v"
    unfolding v_def by (rule flm_2d_to_1d_pure[OF L y])
  have 2: "flm_1d_to_2d (Array1 v) L = Inr T"
    unfolding T_def by (rule flm_1d_to_2d_pure[OF L v(1)])
  have "T = y"
  proof (rule rect_eqI[OF T(1) y])
    fix r c assume rc: "r < nat L" "c < nat (2 * L - 1)"
    show "mget T r c = mget y r c"
    proof (cases "\<bar>int c - (L - 1)\<bar> \<le> int r")
      case True
      define m where "m = int c - (L - 1)"
      have tri: "(int r, m) \<in> set (triangle L)" using True rc by (auto simp: in_triangle m_def)
      have c: "nat (L - 1 + m) = c" by (simp add: m_def)
      show ?thesis using T(2)[OF tri] v(2)[OF tri] unfolding c by simp
    next
      case False
      show ?thesis using T(3)[OF rc False] zero_outside_triangleD[OF z rc False] by simp
    qed
  qed
  then show ?thesis unfolding 1 bind_def using 2 by simp
qed

text \<open>
  C10. For every bandlimit \<open>L \<ge> 1\<close> the two layout conversions are mutually inverse:
  \<^verbatim>\<open>flm_2d_to_1d(flm_1d_to_2d(x, L), L) = x\<close> for every flat vector \<open>x\<close> of \<^verbatim>\<open>ncoeff(L)\<close>
  entries, and \<^verbatim>\<open>flm_1d_to_2d(flm_2d_to_1d(y, L), L) = y\<close> for every \<open>L \<times> (2L-1)\<close> table \<open>y\<close>
  whose entries outside the triangle \<open>\<bar>m\<bar> \<le> el\<close> are zero.
\<close>

theorem flm_layouts_mutually_inverse:
  fixes x :: "complex list" and y :: "complex list list"
  assumes "1 \<le> L"
  shows "(length x = nat (ncoeff L) \<longrightarrow>
            bind (flm_1d_to_2d (Array1 x) L) (\<lambda>t. flm_2d_to_1d (Array2 t) L) = Inr x)
       \<and> (rect (nat L) (nat (2 * L - 1)) y \<and> zero_outside_triangle L y \<longrightarrow>
            bind (flm_2d_to_1d (Array2 y) L) (\<lambda>v. flm_1d_to_2d (Array1 v) L) = Inr y)"
  using assms flm_1d_roundtrip flm_2d_roundtrip by blast

theorem flm_layouts_mutually_inverse_witness:
  "(1 :: int) \<le> 2
   \<and> length [1, 2, 3, 4 :: complex] = nat (ncoeff 2)
   \<and> bind (flm_1d_to_2d (Array1 [1, 2, 3, 4]) 2) (\<lambda>t. flm_2d_to_1d (Array2 t) 2)
       = Inr [1, 2, 3, 4]
   \<and> rect (nat 2) (nat (2 * 2 - 1)) [[0, 5, 0], [6, 7, 8 :: complex]]
   \<and> zero_outside_triangle 2 [[0, 5, 0], [6, 7, 8]]
   \<and> bind (flm_2d_to_1d (Array2 [[0, 5, 0], [6, 7, 8]]) 2) (\<lambda>v. flm_1d_to_2d (Array1 v) 2)
       = Inr [[0, 5, 0], [6, 7, 8]]"
  using flm_layouts_mutually_inverse[of 2 "[1, 2, 3, 4]" "[[0, 5, 0], [6, 7, 8]]"]
  by (simp add: ncoeff_def rect_def zero_outside_triangle_def mget_def eval_nat_numeral)

lemma flm_1d_to_2d_example:
  "flm_1d_to_2d (Array1 [1, 2, 3, 4]) 2 = Inr [[0, 1, 0], [2, 3, 4]]"
  by (simp add: flm_1d_to_2d_def zeros2_def vget_py_def mset_py_def py_index_def bind_def
      elm2ind_def mset_def eval_nat_numeral upto.simps)

subsection \<open>Degrees below the spin\<close>

lemma foldM_cong:
  assumes "xs = ys" "\<And>x s. x \<in> set ys \<Longrightarrow> f x s = g x s"
  shows "foldM f xs = foldM g ys"
proof
  fix s
  have "foldM f ys s = foldM g ys s" using assms(2)
    by (induction ys arbitrary: s) (auto split: sum.splits)
  then show "foldM f xs s = foldM g ys s" using assms(1) by simp
qed

lemma bind_cong:
  "r = r' \<Longrightarrow> (\<And>x. r' = Inr x \<Longrightarrow> f x = g x) \<Longrightarrow> bind r f = bind r' g"
  by (auto simp: bind_def split: sum.splits)

lemma vget_py_zero_below_spin:
  assumes "\<bar>spin\<bar> \<le> el" "- el \<le> m" "m \<le> el"
  shows "vget_py (zero_below_spin flm spin) (elm2ind el m) = vget_py flm (elm2ind el m)"
proof -
  have el: "0 \<le> el" using assms by auto
  have nn: "0 \<le> elm2ind el m" using elm2ind_range(1)[OF el _ assms(2,3), of "el + 1"] by simp
  have "nat (elm2ind el m) \<notin> (\<lambda>(el, m). nat (elm2ind el m)) ` set (triangle \<bar>spin\<bar>)"
  proof
    assume "nat (elm2ind el m) \<in> (\<lambda>(el, m). nat (elm2ind el m)) ` set (triangle \<bar>spin\<bar>)"
    then obtain el' m' where r: "0 \<le> el'" "el' < \<bar>spin\<bar>" "- el' \<le> m'" "m' \<le> el'"
      and e: "nat (elm2ind el m) = nat (elm2ind el' m')"
      by (auto simp: in_triangle)
    have "0 \<le> elm2ind el' m'" using elm2ind_range(1)[OF r] .
    moreover have "elm2ind el' m' < elm2ind el m"
      using elm2ind_less[of el' el m' m] r assms by auto
    ultimately show False using e nn by simp
  qed
  then have "zero_below_spin flm spin ! nat (elm2ind el m) = flm ! nat (elm2ind el m)"
    unfolding zero_below_spin_def by (rule vwrites_other)
  then show ?thesis using nn
    by (simp add: vget_py_def py_index_def bind_def zero_below_spin_def)
qed

lemma inverse_direct_zero_below_spin:
  "inverse_direct S (zero_below_spin flm spin) L spin sampling
   = inverse_direct S flm L spin sampling"
proof -
  have B: "foldM (\<lambda>m. foldM (\<lambda>(p, phi) f.
                     bind (mget_py dl (m + L - 1) (- spin + L - 1)) (\<lambda>d.
                     bind (vget_py (zero_below_spin flm spin) (elm2ind el m)) (\<lambda>c.
                       madd f t p
                         (of_real (minus_one_pow spin) * of_real (elfactor el)
                          * exp (\<i> * of_int m * of_real phi)
                          * of_real d * c))))
                   (enumerate_from0 phis))
                 [- el .. el]
         = foldM (\<lambda>m. foldM (\<lambda>(p, phi) f.
                     bind (mget_py dl (m + L - 1) (- spin + L - 1)) (\<lambda>d.
                     bind (vget_py flm (elm2ind el m)) (\<lambda>c.
                       madd f t p
                         (of_real (minus_one_pow spin) * of_real (elfactor el)
                          * exp (\<i> * of_int m * of_real phi)
                          * of_real d * c))))
                   (enumerate_from0 phis))
                 [- el .. el]"
    if "\<bar>spin\<bar> \<le> el" for el dl t phis
    by (rule foldM_cong[OF refl]) (simp add: vget_py_zero_below_spin that)
  have C: "(if el \<ge> \<bar>spin\<bar> then
              bind (foldM (\<lambda>m. foldM (\<lambda>(p, phi) f.
                     bind (mget_py dl (m + L - 1) (- spin + L - 1)) (\<lambda>d.
                     bind (vget_py (zero_below_spin flm spin) (elm2ind el m)) (\<lambda>c.
                       madd f t p
                         (of_real (minus_one_pow spin) * of_real (elfactor el)
                          * exp (\<i> * of_int m * of_real phi)
                          * of_real d * c))))
                   (enumerate_from0 phis))
                 [- el .. el] f)
                (\<lambda>f. Inr (dl, f))
            else Inr (dl, f))
         = (if el \<ge> \<bar>spin\<bar> then
              bind (foldM (\<lambda>m. foldM (\<lambda>(p, phi) f.
                     bind (mget_py dl (m + L - 1) (- spin + L - 1)) (\<lambda>d.
                     bind (vget_py flm (elm2ind el m)) (\<lambda>c.
                       madd f t p
                         (of_real (minus_one_pow spin) * of_real (elfactor el)
                          * exp (\<i> * of_int m * of_real phi)
                          * of_real d * c))))
                   (enumerate_from0 phis))
                 [- el .. el] f)
                (\<lambda>f. Inr (dl, f))
            else Inr (dl, f))" for el dl t phis f
    using B[of el dl t phis] by (cases "el \<ge> \<bar>spin\<bar>") simp_all
  show ?thesis unfolding inverse_direct_def C ..
qed

lemma sov_fmt_zero_below_spin:
  "sov_fmt S (zero_below_spin flm spin) L spin n_theta theta_list
   = sov_fmt S flm L spin n_theta theta_list"
proof -
  have B: "foldM (\<lambda>m fmt.
                     bind (mget_py dl (m + L - 1) (- spin + L - 1)) (\<lambda>d.
                     bind (vget_py (zero_below_spin flm spin) (elm2ind el m)) (\<lambda>c.
                       madd_py fmt (m + L - 1) (int t)
                         (of_real (minus_one_pow spin) * of_real (elfactor el)
                          * of_real d * c))))
                 [- el .. el]
         = foldM (\<lambda>m fmt.
                     bind (mget_py dl (m + L - 1) (- spin + L - 1)) (\<lambda>d.
                     bind (vget_py flm (elm2ind el m)) (\<lambda>c.
                       madd_py fmt (m + L - 1) (int t)
                         (of_real (minus_one_pow spin) * of_real (elfactor el)
                          * of_real d * c))))
                 [- el .. el]"
    if "\<bar>spin\<bar> \<le> el" for el dl t
    by (rule foldM_cong[OF refl]) (simp add: vget_py_zero_below_spin that)
  have C: "(if el \<ge> \<bar>spin\<bar> then
              bind (foldM (\<lambda>m fmt.
                     bind (mget_py dl (m + L - 1) (- spin + L - 1)) (\<lambda>d.
                     bind (vget_py (zero_below_spin flm spin) (elm2ind el m)) (\<lambda>c.
                       madd_py fmt (m + L - 1) (int t)
                         (of_real (minus_one_pow spin) * of_real (elfactor el)
                          * of_real d * c))))
                 [- el .. el] fmt)
                (\<lambda>fmt. Inr (dl, fmt))
            else Inr (dl, fmt))
         = (if el \<ge> \<bar>spin\<bar> then
              bind (foldM (\<lambda>m fmt.
                     bind (mget_py dl (m + L - 1) (- spin + L - 1)) (\<lambda>d.
                     bind (vget_py flm (elm2ind el m)) (\<lambda>c.
                       madd_py fmt (m + L - 1) (int t)
                         (of_real (minus_one_pow spin) * of_real (elfactor el)
                          * of_real d * c))))
                 [- el .. el] fmt)
                (\<lambda>fmt. Inr (dl, fmt))
            else Inr (dl, fmt))" for el dl t fmt
    using B[of el dl t] by (cases "el \<ge> \<bar>spin\<bar>") simp_all
  show ?thesis unfolding sov_fmt_def C ..
qed

text \<open>
  C8. In every inverse variant the coefficients of the degrees \<open>el < \<bar>spin\<bar>\<close> contribute
  nothing: replacing them by zero leaves the result (the grid, or the error) the same, for
  every spin, bandlimit, scheme, coefficient vector and collaborators.
\<close>

theorem inverse_transforms_ignore_degrees_below_spin:
  "inverse_direct S (zero_below_spin flm spin) L spin sampling
     = inverse_direct S flm L spin sampling
   \<and> inverse_sov S (zero_below_spin flm spin) L spin sampling
     = inverse_sov S flm L spin sampling
   \<and> inverse_sov_fft S (zero_below_spin flm spin) L spin sampling
     = inverse_sov_fft S flm L spin sampling"
  unfolding inverse_direct_zero_below_spin inverse_sov_def inverse_sov_fft_def
    sov_fmt_zero_below_spin by (intro conjI refl)

lemma zero_below_spin_example: "zero_below_spin [1, 2, 3, 4] (- 1) = [0, 2, 3, 4]"
  by (simp add: zero_below_spin_def vwrites_def triangle_def pairs_def elm2ind_def upto.simps)

lemma inverse_direct_example:
  "inverse_direct
     \<lparr>ntheta = \<lambda>L s. Inr 1, nphi_equiang = \<lambda>L s. Inr 1,
      thetas = \<lambda>L s. Inr [0], phis_equiang = \<lambda>L s. Inr [0],
      weight_dh = \<lambda>t L. Inr 1, risbo_compute_full = \<lambda>dl t L el. Inr [[1]]\<rparr>
     [1] 1 0 ''mw''
   = Inr [[complex_of_real (sqrt (1 / (4 * pi)))]]"
  by (simp add: inverse_direct_def bind_def enumerate_from0_def zeros2_def mget_py_def vget_py_def
      py_index_def madd_def mset_def mget_def elm2ind_def minus_one_pow_def elfactor_def upto.simps)

subsection \<open>turok\_fill as a sequence of copies\<close>

lemma copies_Nil [simp]: "copies [] D = D"
  by (simp add: copies_def)



lemma square_copies [simp]: "square n (copies ops D) = square n D"
  unfolding copies_def by (induction ops arbitrary: D) (auto split: prod.splits)




























subsection \<open>The recursion works row by row\<close>








lemma same_state_if2:
  "same_state k A B \<Longrightarrow> same_state k A B' \<Longrightarrow> same_state k A' B \<Longrightarrow> same_state k A' B'
   \<Longrightarrow> same_state k (if c then A else A') (if c' then B else B')"
  by simp















lemma rows_eq_refl: "k < length D \<Longrightarrow> rows_eq k D D"
  by (simp add: rows_eq_def)




lemma length_mset [simp]: "length (mset dl i j v) = length dl"
  by (simp add: mset_def)



















subsection \<open>The slice is a row of the full matrix\<close>














end
